theory Spec2Isabelle
  imports Main
begin

section \<open>The tail-eliding engine of head (coreutils 5.2.1, src/head.c)\<close>

text \<open>
  A shallow embedding of the functions of \<^verbatim>\<open>head.c\<close> that print all but the last
  N bytes or lines of an input: \<^verbatim>\<open>copy_fd\<close>, \<^verbatim>\<open>elide_tail_bytes_pipe\<close>,
  \<^verbatim>\<open>elide_tail_bytes_file\<close>, \<^verbatim>\<open>elide_tail_lines_pipe\<close>,
  \<^verbatim>\<open>elide_tail_lines_seekable\<close> and \<^verbatim>\<open>elide_tail_lines_file\<close>.
  The C functions work on a file descriptor and on \<^verbatim>\<open>stdout\<close>; the model passes
  an explicit world (the descriptor, the output stream, the diagnostics) through every call.
\<close>

subsection \<open>Constants of the build\<close>

type_synonym byte = char

definition NL :: byte where
  "NL = CHR 0x0A"

text \<open>
  The constants that \<^verbatim>\<open>head.c\<close> takes from system headers or from the compiler's
  command line are parameters of the model. \<^verbatim>\<open>HEAD_TAIL_PIPE_READ_BUFSIZE\<close> and
  \<^verbatim>\<open>HEAD_TAIL_PIPE_BYTECOUNT_THRESHOLD\<close> can be overridden when compiling
  (they default to \<^verbatim>\<open>BUFSIZ\<close> and \<^verbatim>\<open>1024 * 1024\<close>); the static variable
  \<^verbatim>\<open>presume_input_pipe\<close> is set by the option of that name. \<open>INT_MAX\<close> and
  \<open>OFF_T_MAX\<close> are the largest values of \<^verbatim>\<open>int\<close> and of \<^verbatim>\<open>off_t\<close>.
\<close>

record config =
  BUFSIZ :: nat
  READ_BUFSIZE :: nat
  BYTECOUNT_THRESHOLD :: nat
  SIZE_MAX :: nat
  UINTMAX_MAX :: nat
  INT_MAX :: nat
  OFF_T_MAX :: nat
  presume_input_pipe :: bool

text \<open>Conversion of a value to \<^verbatim>\<open>size_t\<close> and to \<^verbatim>\<open>uintmax_t\<close>: reduction modulo
  the number of values of the type.\<close>

definition to_size_t :: "config \<Rightarrow> int \<Rightarrow> nat" where
  "to_size_t c x = nat (x mod (int (SIZE_MAX c) + 1))"

definition to_uintmax_t :: "config \<Rightarrow> int \<Rightarrow> nat" where
  "to_uintmax_t c x = nat (x mod (int (UINTMAX_MAX c) + 1))"

text \<open>
  Conversion of a value to \<^verbatim>\<open>int\<close>, as when an \<^verbatim>\<open>off_t\<close> is passed for an
  \<^verbatim>\<open>int\<close> parameter: a value that \<^verbatim>\<open>int\<close> can hold is unchanged, any other is reduced
  modulo the number of values of the type into the range from \<open>- INT_MAX - 1\<close> to
  \<open>INT_MAX\<close> (what gcc documents for this implementation-defined conversion).
\<close>

definition to_int :: "config \<Rightarrow> int \<Rightarrow> int" where
  "to_int c x =
     (x + (int (INT_MAX c) + 1)) mod (2 * (int (INT_MAX c) + 1)) - (int (INT_MAX c) + 1)"

text \<open>
  The test of line 1073 of \<^verbatim>\<open>main\<close>, made once the options are read and before any
  file is opened: when it holds, \<^verbatim>\<open>main\<close> ends the process with "number of bytes is
  too large" and the engine is never called.
\<close>

definition count_too_large :: "config \<Rightarrow> bool \<Rightarrow> bool \<Rightarrow> nat \<Rightarrow> bool" where
  "count_too_large c count_lines elide_from_end n_units \<longleftrightarrow>
     \<not> count_lines \<and> elide_from_end \<and> OFF_T_MAX c < n_units"

subsection \<open>The world: descriptor, output stream, diagnostics\<close>

text \<open>
  The places of \<^verbatim>\<open>head.c\<close> that write to \<^verbatim>\<open>stdout\<close>. The tag is recorded in the
  trace only; it does not influence what a write does.
\<close>

datatype wsite =
    Site_copy_fd             \<comment> \<open>line 199\<close>
  | Site_small_tail          \<comment> \<open>line 297\<close>
  | Site_small_prefix        \<comment> \<open>line 302\<close>
  | Site_ring_loop           \<comment> \<open>line 352\<close>
  | Site_ring_remainder      \<comment> \<open>lines 369, 373, 374, 393\<close>
  | Site_lines_pipe          \<comment> \<open>lines 535, 564, 580\<close>
  | Site_lines_seekable      \<comment> \<open>line 680\<close>

datatype event =
    Ev_read nat              \<comment> \<open>a read that returned so many bytes (0 at end of file)\<close>
  | Ev_read_failed
  | Ev_write wsite nat nat   \<comment> \<open>place, bytes requested, bytes accepted\<close>
  | Ev_seek int int int      \<comment> \<open>offset, whence, result\<close>
  | Ev_alloc nat             \<comment> \<open>xmalloc or xcalloc of so many bytes or slots\<close>

datatype diagnostic =
    Error_reading
  | Error_writing
  | File_has_shrunk
  | Write_error
  | Number_of_bytes_is_large nat
  | Cannot_lseek
  | Cannot_lseek_back
  | Cannot_seek_to_offset int
  | Unable_to_restore_file_pointer

datatype read_behaviour = READ_FAILS | READ_AT_MOST nat

text \<open>
  \<open>src\<close> holds the bytes of the open file (for a pipe: the bytes it will deliver) and
  \<open>src_pos\<close> the offset of the descriptor. The three plans say how the next calls of
  \<^verbatim>\<open>read\<close>, \<^verbatim>\<open>fwrite\<close> and \<^verbatim>\<open>lseek\<close> behave, one entry per call; a call
  that finds its plan empty succeeds in full. \<open>src_seek_data_hole\<close> says whether the
  system's \<^verbatim>\<open>lseek\<close> knows \<^verbatim>\<open>SEEK_DATA\<close> and \<^verbatim>\<open>SEEK_HOLE\<close> (Linux since 3.1,
  FreeBSD, Solaris) or refuses them like any other unknown \<open>whence\<close>.
\<close>

record world =
  src :: "byte list"
  src_pos :: nat
  src_fstat_ok :: bool
  src_is_reg :: bool
  src_seekable :: bool
  src_seek_data_hole :: bool
  read_plan :: "read_behaviour list"
  write_plan :: "nat list"
  seek_plan :: "bool list"
  out :: "byte list"
  diag :: "diagnostic list"
  trace :: "event list"

definition log :: "event \<Rightarrow> world \<Rightarrow> world" where
  "log e w = w\<lparr>trace := trace w @ [e]\<rparr>"

definition error :: "diagnostic \<Rightarrow> world \<Rightarrow> world" where
  "error d w = w\<lparr>diag := diag w @ [d]\<rparr>"

definition deliver :: "nat \<Rightarrow> world \<Rightarrow> byte list option \<times> world" where
  "deliver m w =
     (let bs = take m (drop (src_pos w) (src w))
      in (Some bs, log (Ev_read (length bs)) (w\<lparr>src_pos := src_pos w + length bs\<rparr>)))"

text \<open>
  Modelled from the spec: \<^verbatim>\<open>safe_read\<close> (lib/safe-read.c, not under src/), the
  source's "read(buffer) -> bytes_read_or_eof_or_error". \<open>None\<close> is
  \<^verbatim>\<open>SAFE_READ_ERROR\<close>; the empty list is end of file.
\<close>

definition safe_read :: "nat \<Rightarrow> world \<Rightarrow> byte list option \<times> world" where
  "safe_read count w =
     (case read_plan w of
        [] \<Rightarrow> deliver count w
      | READ_FAILS # rest \<Rightarrow> (None, log Ev_read_failed (w\<lparr>read_plan := rest\<rparr>))
      | READ_AT_MOST k # rest \<Rightarrow> deliver (min k count) (w\<lparr>read_plan := rest\<rparr>))"

text \<open>
  \<^verbatim>\<open>fwrite (p, 1, n, stdout)\<close> of the bytes \<open>bs\<close>: returns the number of bytes the
  stream accepted, which is less than \<open>length bs\<close> when the write fails.
\<close>

definition fwrite :: "wsite \<Rightarrow> byte list \<Rightarrow> world \<Rightarrow> nat \<times> world" where
  "fwrite site bs w =
     (case write_plan w of
        [] \<Rightarrow> (length bs, log (Ev_write site (length bs) (length bs)) (w\<lparr>out := out w @ bs\<rparr>))
      | k # rest \<Rightarrow>
          (let a = take k bs
           in (length a,
               log (Ev_write site (length bs) (length a))
                 (w\<lparr>write_plan := rest, out := out w @ a\<rparr>))))"

text \<open>
  \<^verbatim>\<open>lseek (fd, offset, whence)\<close> with \<^verbatim>\<open>SEEK_SET = 0\<close>, \<^verbatim>\<open>SEEK_CUR = 1\<close>,
  \<^verbatim>\<open>SEEK_END = 2\<close> and, where the system has them, \<^verbatim>\<open>SEEK_DATA = 3\<close> and
  \<^verbatim>\<open>SEEK_HOLE = 4\<close>. \<^verbatim>\<open>SEEK_DATA\<close> moves to the first byte of data at or after
  \<open>offset\<close> and \<^verbatim>\<open>SEEK_HOLE\<close> to the first hole at or after it; the file of the model
  has no hole but the one at its end, so that these are \<open>offset\<close> and the length of the
  file, and both are refused when \<open>offset\<close> is not inside the file. Any other
  \<open>whence\<close> and a negative target are refused with \<open>-1\<close>, as is every call on a
  descriptor that cannot seek.
\<close>

definition SEEK_SET :: int where "SEEK_SET = 0"
definition SEEK_CUR :: int where "SEEK_CUR = 1"
definition SEEK_END :: int where "SEEK_END = 2"
definition SEEK_DATA :: int where "SEEK_DATA = 3"
definition SEEK_HOLE :: int where "SEEK_HOLE = 4"

definition seek_target :: "int \<Rightarrow> int \<Rightarrow> world \<Rightarrow> int option" where
  "seek_target offset whence w =
     (if whence = SEEK_SET then Some offset
      else if whence = SEEK_CUR then Some (int (src_pos w) + offset)
      else if whence = SEEK_END then Some (int (length (src w)) + offset)
      else if src_seek_data_hole w \<and> whence = SEEK_DATA then
        (if 0 \<le> offset \<and> offset < int (length (src w)) then Some offset else None)
      else if src_seek_data_hole w \<and> whence = SEEK_HOLE then
        (if 0 \<le> offset \<and> offset < int (length (src w)) then Some (int (length (src w)))
         else None)
      else None)"

definition lseek :: "int \<Rightarrow> int \<Rightarrow> world \<Rightarrow> int \<times> world" where
  "lseek offset whence w =
     (let allowed = (case seek_plan w of [] \<Rightarrow> True | a # _ \<Rightarrow> a);
          w0 = w\<lparr>seek_plan := tl (seek_plan w)\<rparr>
      in if \<not> allowed \<or> \<not> src_seekable w then (- 1, log (Ev_seek offset whence (- 1)) w0)
         else (case seek_target offset whence w of
                 None \<Rightarrow> (- 1, log (Ev_seek offset whence (- 1)) w0)
               | Some t \<Rightarrow>
                   if t < 0 then (- 1, log (Ev_seek offset whence (- 1)) w0)
                   else (t, log (Ev_seek offset whence t) (w0\<lparr>src_pos := nat t\<rparr>))))"

text \<open>How a call of the engine ends.\<close>

datatype ending =
    Returned nat             \<comment> \<open>the function returned this value\<close>
  | Exited                   \<comment> \<open>\<^verbatim>\<open>error (EXIT_FAILURE, ...)\<close> ended the process\<close>
  | Undefined_behaviour      \<comment> \<open>an access outside a buffer, through a null pointer, or a division by zero\<close>
  | Aborted                  \<comment> \<open>\<^verbatim>\<open>abort ()\<close>\<close>
  | Diverges                 \<comment> \<open>the loop never ends\<close>

subsection \<open>copy_fd\<close>

datatype Copy_fd_status =
    COPY_FD_OK
  | COPY_FD_READ_ERROR
  | COPY_FD_WRITE_ERROR
  | COPY_FD_UNEXPECTED_EOF

lemma safe_read_length:
  "safe_read count w = (Some bs, w1) \<Longrightarrow> length bs \<le> count"
  by (auto simp: safe_read_def deliver_def Let_def split: list.splits read_behaviour.splits)

function copy_fd :: "config \<Rightarrow> nat \<Rightarrow> world \<Rightarrow> Copy_fd_status \<times> world" where
  "copy_fd c n_bytes w =
     (if 0 < n_bytes then
        (let n_to_read = min (BUFSIZ c) n_bytes in
         case safe_read n_to_read w of
           (None, w1) \<Rightarrow> (COPY_FD_READ_ERROR, w1)
         | (Some buf, w1) \<Rightarrow>
             (let n_read = length buf; n_bytes' = n_bytes - n_read in
              if n_read = 0 \<and> n_bytes' \<noteq> 0 then (COPY_FD_UNEXPECTED_EOF, w1)
              else (case fwrite Site_copy_fd buf w1 of
                      (k, w2) \<Rightarrow>
                        if k < n_read then (COPY_FD_WRITE_ERROR, w2)
                        else copy_fd c n_bytes' w2)))
      else (COPY_FD_OK, w))"
  by pat_completeness auto
termination
  by (relation "measure (\<lambda>(c, n_bytes, w). n_bytes)") auto

declare copy_fd.simps [simp del]

definition diagnose_copy_fd_failure :: "Copy_fd_status \<Rightarrow> world \<Rightarrow> world option" where
  "diagnose_copy_fd_failure err w =
     (case err of
        COPY_FD_READ_ERROR \<Rightarrow> Some (error Error_reading w)
      | COPY_FD_WRITE_ERROR \<Rightarrow> Some (error Error_writing w)
      | COPY_FD_UNEXPECTED_EOF \<Rightarrow> Some (error File_has_shrunk w)
      | COPY_FD_OK \<Rightarrow> None)"

subsection \<open>Buffers\<close>

text \<open>
  A buffer is the list of its bytes, as long as the buffer's capacity. \<open>slice\<close> is the
  range \<^verbatim>\<open>buf + off\<close> of \<open>n\<close> bytes that an \<^verbatim>\<open>fwrite\<close> reads, \<open>store\<close> a read of
  \<open>data\<close> into \<^verbatim>\<open>buf + off\<close>; both are \<open>None\<close> when the range leaves the buffer.
  \<open>xmalloc\<close> gives a buffer of bytes 0 (the C buffer holds indeterminate bytes).
\<close>

definition slice :: "byte list \<Rightarrow> nat \<Rightarrow> nat \<Rightarrow> byte list option" where
  "slice buf off n = (if off + n \<le> length buf then Some (take n (drop off buf)) else None)"

definition store :: "byte list \<Rightarrow> nat \<Rightarrow> byte list \<Rightarrow> byte list option" where
  "store buf off data =
     (if off + length data \<le> length buf
      then Some (take off buf @ data @ drop (off + length data) buf)
      else None)"

definition xmalloc :: "nat \<Rightarrow> byte list" where
  "xmalloc n = replicate n (CHR 0x00)"

text \<open>
  Modelled from the spec: \<^verbatim>\<open>full_read\<close> (lib/full-read.c, not under src/), the
  "reading full buffers" of the streaming byte elider: it repeats \<^verbatim>\<open>safe_read\<close> until
  \<open>count\<close> bytes are read, the end of the file is met (\<^verbatim>\<open>errno\<close> is then 0) or a
  read fails (\<^verbatim>\<open>errno\<close> is then not 0). The result is the bytes read and whether
  \<^verbatim>\<open>errno\<close> is not 0.
\<close>

function full_read :: "nat \<Rightarrow> world \<Rightarrow> byte list \<times> bool \<times> world" where
  "full_read count w =
     (if 0 < count then
        (case safe_read count w of
           (None, w1) \<Rightarrow> ([], True, w1)
         | (Some bs, w1) \<Rightarrow>
             if length bs = 0 then ([], False, w1)
             else (case full_read (count - length bs) w1 of
                     (rest, failed, w2) \<Rightarrow> (bs @ rest, failed, w2)))
      else ([], False, w))"
  by pat_completeness auto
termination
  by (relation "measure (\<lambda>(count, w). count)") auto

declare full_read.simps [simp del]

text \<open>The bytes the descriptor can still deliver: what the loops' termination rests on.\<close>

definition remaining :: "world \<Rightarrow> nat" where
  "remaining w = length (src w) - src_pos w"

lemma take_min_length: "take (min (length xs) n) xs = take n xs"
  by (simp add: min_def)

lemma take_min_drop: "take (min (length xs - p) n) (drop p xs) = take n (drop p xs)"
  by (simp add: min_def)

lemma safe_read_Some:
  "safe_read count w = (Some bs, w1) \<Longrightarrow>
     trace w1 = trace w @ [Ev_read (length bs)] \<and> out w1 = out w \<and> src w1 = src w \<and>
     src_pos w1 = src_pos w + length bs \<and> bs = take (length bs) (drop (src_pos w) (src w)) \<and>
     length bs \<le> remaining w \<and> diag w1 = diag w \<and> write_plan w1 = write_plan w"
  by (auto simp: safe_read_def deliver_def log_def Let_def take_min_length take_min_drop remaining_def
           split: list.splits read_behaviour.splits)

lemma safe_read_None:
  "safe_read count w = (None, w1) \<Longrightarrow>
     trace w1 = trace w @ [Ev_read_failed] \<and> out w1 = out w \<and> src w1 = src w \<and>
     src_pos w1 = src_pos w \<and> diag w1 = diag w \<and> write_plan w1 = write_plan w"
  by (auto simp: safe_read_def deliver_def log_def Let_def split: list.splits read_behaviour.splits)

lemma safe_read_remaining:
  "safe_read count w = (Some bs, w1) \<Longrightarrow> remaining w1 = remaining w - length bs"
  by (drule safe_read_Some) (simp add: remaining_def)

lemma fwrite_effect:
  "fwrite site bs w = (k, w1) \<Longrightarrow>
     trace w1 = trace w @ [Ev_write site (length bs) k] \<and> out w1 = out w @ take k bs \<and>
     k \<le> length bs \<and> src w1 = src w \<and> src_pos w1 = src_pos w \<and> diag w1 = diag w"
  by (auto simp: fwrite_def log_def Let_def take_min_length split: list.splits)

lemma fwrite_remaining [simp]: "remaining (snd (fwrite site bs w)) = remaining w"
  by (cases "fwrite site bs w") (auto dest: fwrite_effect simp: remaining_def)

lemma log_remaining [simp]: "remaining (log e w) = remaining w"
  by (simp add: log_def remaining_def)

lemma full_read_remaining:
  "full_read count w = (data, failed, w1) \<Longrightarrow>
     length data \<le> count \<and> length data \<le> remaining w \<and> remaining w1 = remaining w - length data"
proof (induction count w arbitrary: data failed w1 rule: full_read.induct)
  case (1 count w)
  show ?case
  proof (cases "0 < count")
    case False
    with "1.prems" show ?thesis by (simp add: full_read.simps[of count w])
  next
    case pos: True
    obtain r w0 where r: "safe_read count w = (r, w0)" by force
    show ?thesis
    proof (cases r)
      case None
      with r pos "1.prems" safe_read_None[of count w w0] show ?thesis
        by (auto simp: full_read.simps[of count w] remaining_def)
    next
      case (Some bs)
      note rd = safe_read_Some[OF r[unfolded Some]] safe_read_length[OF r[unfolded Some]]
        safe_read_remaining[OF r[unfolded Some]]
      show ?thesis
      proof (cases "length bs = 0")
        case True
        with r Some pos "1.prems" rd show ?thesis
          by (auto simp: full_read.simps[of count w])
      next
        case False
        obtain rest f w2 where rec: "full_read (count - length bs) w0 = (rest, f, w2)"
          by (metis prod_cases3)
        from "1.IH"[OF pos r[unfolded Some, symmetric] refl False rec]
        have ih: "length rest \<le> count - length bs" "length rest \<le> remaining w0"
          "remaining w2 = remaining w0 - length rest" by auto
        from r Some pos False rec "1.prems"
        have "data = bs @ rest" "w1 = w2" by (auto simp: full_read.simps[of count w])
        with ih rd show ?thesis by auto
      qed
    qed
  qed
qed

subsection \<open>elide_tail_bytes_pipe\<close>

text \<open>
  The double-buffer strategy (lines 250 to 312). \<open>data\<close> are the bytes of this round's
  \<^verbatim>\<open>full_read\<close>, so \<^verbatim>\<open>n_read\<close> is \<open>length data\<close> and the end of the file is met
  when \<open>length data < n_to_read\<close>. \<open>b\<close> is the one allocation of
  \<^verbatim>\<open>2 * n_to_read\<close> bytes; \<^verbatim>\<open>b[0]\<close> is its offset 0 and \<^verbatim>\<open>b[1]\<close> its offset
  \<open>n_to_read\<close>. \<open>c_not i\<close> is \<^verbatim>\<open>!i\<close>. A call with \<open>n_to_read = 0\<close> reads nothing,
  writes nothing and never meets the end of the file: the C loop does not end.
\<close>

lemma full_read_all_decreases:
  "(x, y) = full_read n w \<Longrightarrow> (xa, ya) = y \<Longrightarrow> \<not> length x < n \<Longrightarrow> n \<noteq> 0 \<Longrightarrow>
     remaining ya < remaining w"
  using full_read_remaining[of n w x xa ya] by auto

lemma fwrite_remaining_eq: "(k, w') = fwrite site bs w \<Longrightarrow> remaining w' = remaining w"
  by (metis fwrite_remaining snd_conv)

definition c_not :: "nat \<Rightarrow> nat" where
  "c_not i = (if i = 0 then 1 else 0)"

text \<open>Lines 274 to 286: \<^verbatim>\<open>delta\<close>, given the bytes read in this round.\<close>

definition small_delta :: "nat \<Rightarrow> nat \<Rightarrow> nat \<Rightarrow> bool \<Rightarrow> nat" where
  "small_delta n_elide n_to_read n_read first =
     (if n_read < n_to_read \<and> n_read \<le> n_elide \<and> \<not> first then n_elide - n_read else 0)"

text \<open>Lines 290 to 298: the elided data of the previous round is written from the other
  buffer, the result of \<^verbatim>\<open>fwrite\<close> being ignored. \<open>None\<close>: the range leaves the
  allocation.\<close>

definition small_previous_round ::
  "config \<Rightarrow> nat \<Rightarrow> nat \<Rightarrow> bool \<Rightarrow> nat \<Rightarrow> byte list \<Rightarrow> nat \<Rightarrow> world \<Rightarrow> world option" where
  "small_previous_round c n_elide n_to_read first i b delta w =
     (if \<not> first
      then map_option (\<lambda>bs. snd (fwrite Site_small_tail bs w))
             (slice b (c_not i * n_to_read + READ_BUFSIZE c) (n_elide - delta))
      else Some w)"

lemma small_previous_round_remaining:
  "small_previous_round c n_elide n_to_read first i b delta w = Some w2 \<Longrightarrow>
     remaining w2 = remaining w"
  by (auto simp: small_previous_round_def split: if_splits)

function elide_small_loop ::
  "config \<Rightarrow> nat \<Rightarrow> nat \<Rightarrow> bool \<Rightarrow> nat \<Rightarrow> byte list \<Rightarrow> world \<Rightarrow> ending \<times> world" where
  "elide_small_loop c n_elide n_to_read first i b w =
     (if n_to_read = 0 then (Diverges, w)
      else
        (case full_read n_to_read w of
           (data, failed, w1) \<Rightarrow>
             (case store b (i * n_to_read) data of
                None \<Rightarrow> (Undefined_behaviour, w1)
              | Some b1 \<Rightarrow>
                  if length data < n_to_read \<and> failed then (Returned 1, error Error_reading w1)
                  else
                    (case small_previous_round c n_elide n_to_read first i b1
                            (small_delta n_elide n_to_read (length data) first) w1 of
                       None \<Rightarrow> (Undefined_behaviour, w1)
                     | Some w2 \<Rightarrow>
                         if n_elide < length data then
                           (case slice b1 (i * n_to_read) (length data - n_elide) of
                              None \<Rightarrow> (Undefined_behaviour, w2)
                            | Some bs \<Rightarrow>
                                (case fwrite Site_small_prefix bs w2 of
                                   (k, w3) \<Rightarrow>
                                     if k < length data - n_elide
                                     then (Returned 1, error Write_error w3)
                                     else if length data < n_to_read then (Returned 0, w3)
                                     else elide_small_loop c n_elide n_to_read False (c_not i) b1 w3))
                         else if length data < n_to_read then (Returned 0, w2)
                         else elide_small_loop c n_elide n_to_read False (c_not i) b1 w2))))"
  by pat_completeness auto
termination
  by (relation "measure (\<lambda>(c, n_elide, n_to_read, first, i, b, w). remaining w)")
     (auto dest!: full_read_all_decreases small_previous_round_remaining fwrite_remaining_eq)

declare elide_small_loop.simps [simp del]

definition elide_small :: "config \<Rightarrow> nat \<Rightarrow> world \<Rightarrow> ending \<times> world" where
  "elide_small c n_elide w =
     (let n_to_read = to_size_t c (int (READ_BUFSIZE c) + int n_elide);
          size = to_size_t c (2 * int n_to_read)
      in elide_small_loop c n_elide n_to_read True 0 (xmalloc size) (log (Ev_alloc size) w))"

text \<open>
  The ring strategy (lines 314 to 404). \<open>b\<close> is the array of \<open>n_bufs\<close> block pointers
  (\<open>n_bufs\<close> is its length), a null pointer being \<open>None\<close>. \<open>block_at b j\<close> is what
  \<^verbatim>\<open>b[j]\<close> points to: nothing when \<open>j\<close> is outside the array, the empty range for
  a null pointer.
\<close>

definition block_at :: "byte list option list \<Rightarrow> nat \<Rightarrow> byte list option" where
  "block_at b j =
     (if j < length b then Some (case b ! j of None \<Rightarrow> [] | Some blk \<Rightarrow> blk) else None)"

text \<open>\<^verbatim>\<open>fwrite (b[j] + off, 1, n, stdout)\<close> with its result ignored.\<close>

definition write_block ::
  "byte list option list \<Rightarrow> nat \<Rightarrow> nat \<Rightarrow> nat \<Rightarrow> world \<Rightarrow> world option" where
  "write_block b j off n w =
     (case block_at b j of
        None \<Rightarrow> None
      | Some blk \<Rightarrow> map_option (\<lambda>bs. snd (fwrite Site_ring_remainder bs w)) (slice blk off n))"

text \<open>The code after the loop (lines 361 to 395); \<open>i\<close> and \<open>i_next\<close> are the values
  the loop's last increment left.\<close>

definition ring_remainder ::
  "config \<Rightarrow> nat \<Rightarrow> nat \<Rightarrow> nat \<Rightarrow> nat \<Rightarrow> byte list option list \<Rightarrow> bool \<Rightarrow> world \<Rightarrow>
     ending \<times> world" where
  "ring_remainder c rem i i_next n_read b buffered_enough w =
     (if rem \<noteq> 0 then
        (if buffered_enough then
           (let n_bytes_left_in_b_i = to_size_t c (int (READ_BUFSIZE c) - int n_read) in
            if rem < n_bytes_left_in_b_i then
              (case write_block b i n_read rem w of
                 None \<Rightarrow> (Undefined_behaviour, w)
               | Some w1 \<Rightarrow> (Returned 0, w1))
            else
              (case write_block b i n_read n_bytes_left_in_b_i w of
                 None \<Rightarrow> (Undefined_behaviour, w)
               | Some w1 \<Rightarrow>
                   (case write_block b i_next 0 (rem - n_bytes_left_in_b_i) w1 of
                      None \<Rightarrow> (Undefined_behaviour, w1)
                    | Some w2 \<Rightarrow> (Returned 0, w2))))
         else if i + 1 = length b then
           (let y = to_size_t c (int (READ_BUFSIZE c) - int rem);
                x = to_size_t c (int n_read - int y)
            in case write_block b i_next 0 x w of
                 None \<Rightarrow> (Undefined_behaviour, w)
               | Some w1 \<Rightarrow> (Returned 0, w1))
         else (Returned 0, w))
      else (Returned 0, w))"

function elide_ring_loop ::
  "config \<Rightarrow> nat \<Rightarrow> nat \<Rightarrow> nat \<Rightarrow> byte list option list \<Rightarrow> bool \<Rightarrow> world \<Rightarrow> ending \<times> world" where
  "elide_ring_loop c rem i i_next b buffered_enough w =
     (if READ_BUFSIZE c = 0 then (Diverges, w)
      else if \<not> i < length b then (Undefined_behaviour, w)
      else
        (let w0 = (case b ! i of None \<Rightarrow> log (Ev_alloc (READ_BUFSIZE c)) w | Some _ \<Rightarrow> w);
             blk = (case b ! i of None \<Rightarrow> xmalloc (READ_BUFSIZE c) | Some blk \<Rightarrow> blk)
         in case full_read (READ_BUFSIZE c) w0 of
              (data, failed, w1) \<Rightarrow>
                (let n_read = length data in
                 case store blk 0 data of
                   None \<Rightarrow> (Undefined_behaviour, w1)
                 | Some blk1 \<Rightarrow>
                     (let b1 = b[i := Some blk1] in
                      if n_read < READ_BUFSIZE c \<and> failed then (Returned 1, error Error_reading w1)
                      else
                        (let eof = (n_read < READ_BUFSIZE c);
                             enough = (buffered_enough \<or> i + 1 = length b);
                             i' = i_next;
                             i_next' = (i_next + 1) mod length b
                         in if enough then
                              (case block_at b1 i_next of
                                 None \<Rightarrow> (Undefined_behaviour, w1)
                               | Some old \<Rightarrow>
                                   (case slice old 0 n_read of
                                      None \<Rightarrow> (Undefined_behaviour, w1)
                                    | Some bs \<Rightarrow>
                                        (case fwrite Site_ring_loop bs w1 of
                                           (k, w2) \<Rightarrow>
                                             if k < n_read then (Returned 1, error Write_error w2)
                                             else if eof
                                             then ring_remainder c rem i' i_next' n_read b1 enough w2
                                             else elide_ring_loop c rem i' i_next' b1 enough w2)))
                            else if eof then ring_remainder c rem i' i_next' n_read b1 enough w1
                            else elide_ring_loop c rem i' i_next' b1 enough w1)))))"
  by pat_completeness auto
termination
  by (relation "measure (\<lambda>(c, rem, i, i_next, b, buffered_enough, w). remaining w)")
     (auto dest!: full_read_all_decreases fwrite_remaining_eq split: option.splits)

declare elide_ring_loop.simps [simp del]

text \<open>Lines 325 to 327: \<^verbatim>\<open>rem\<close>, \<^verbatim>\<open>n_elide_round\<close> and \<^verbatim>\<open>n_bufs\<close>.\<close>

definition ring_rem :: "config \<Rightarrow> nat \<Rightarrow> nat" where
  "ring_rem c n_elide = to_size_t c (int (READ_BUFSIZE c) - int (n_elide mod READ_BUFSIZE c))"

definition ring_n_elide_round :: "config \<Rightarrow> nat \<Rightarrow> nat" where
  "ring_n_elide_round c n_elide = to_size_t c (int n_elide + int (ring_rem c n_elide))"

definition ring_n_bufs :: "config \<Rightarrow> nat \<Rightarrow> nat" where
  "ring_n_bufs c n_elide =
     to_size_t c (int (ring_n_elide_round c n_elide div READ_BUFSIZE c) + 1)"

text \<open>With \<^verbatim>\<open>READ_BUFSIZE = 0\<close> line 325 divides by zero. \<^verbatim>\<open>xcalloc\<close> gives the
  array of \<open>n_bufs\<close> null pointers.\<close>

definition elide_ring :: "config \<Rightarrow> nat \<Rightarrow> world \<Rightarrow> ending \<times> world" where
  "elide_ring c n_elide w =
     (if READ_BUFSIZE c = 0 then (Undefined_behaviour, w)
      else
        (let rem = ring_rem c n_elide;
             n_bufs = ring_n_bufs c n_elide
         in elide_ring_loop c rem 0 1 (replicate n_bufs None) False (log (Ev_alloc n_bufs) w)))"

text \<open>
  \<open>n_elide_0\<close> is the \<^verbatim>\<open>uintmax_t\<close> argument. The sum of the test of line 231 is a
  \<^verbatim>\<open>uintmax_t\<close>; \<^verbatim>\<open>error (EXIT_FAILURE, ...)\<close> ends the process.
\<close>

definition elide_tail_bytes_pipe :: "config \<Rightarrow> nat \<Rightarrow> world \<Rightarrow> ending \<times> world" where
  "elide_tail_bytes_pipe c n_elide_0 w =
     (let n_elide = to_size_t c (int n_elide_0) in
      if SIZE_MAX c < to_uintmax_t c (int n_elide_0 + int (READ_BUFSIZE c))
      then (Exited, error (Number_of_bytes_is_large n_elide_0) w)
      else if n_elide \<le> BYTECOUNT_THRESHOLD c then elide_small c n_elide w
      else elide_ring c n_elide w)"

subsection \<open>elide_tail_bytes_file\<close>

text \<open>The third argument of the \<^verbatim>\<open>lseek\<close> of line 450 is \<^verbatim>\<open>current_pos\<close>, as in the
  source: an \<^verbatim>\<open>off_t\<close> passed for the \<^verbatim>\<open>int whence\<close>, hence converted to
  \<^verbatim>\<open>int\<close>.\<close>

definition elide_tail_bytes_file :: "config \<Rightarrow> nat \<Rightarrow> world \<Rightarrow> ending \<times> world" where
  "elide_tail_bytes_file c n_elide w =
     (if presume_input_pipe c \<or> \<not> src_fstat_ok w \<or> \<not> src_is_reg w
      then elide_tail_bytes_pipe c n_elide w
      else
        (case lseek 0 SEEK_CUR w of
           (current_pos, w1) \<Rightarrow>
             if current_pos = - 1 then (Returned 1, error Cannot_lseek w1)
             else
               (case lseek 0 SEEK_END w1 of
                  (end_pos, w2) \<Rightarrow>
                    if end_pos = - 1 then (Returned 1, error Cannot_lseek w2)
                    else
                      (let diff = end_pos - current_pos;
                           bytes_remaining = (if diff < 0 then 0 else nat diff)
                       in if bytes_remaining \<le> n_elide then (Returned 0, w2)
                          else
                            (case lseek 0 (to_int c current_pos) w2 of
                               (r, w3) \<Rightarrow>
                                 if r = - 1 then (Returned 1, error Cannot_lseek_back w3)
                                 else
                                   (case copy_fd c (bytes_remaining - n_elide) w3 of
                                      (err, w4) \<Rightarrow>
                                        if err = COPY_FD_OK then (Returned 0, w4)
                                        else (case diagnose_copy_fd_failure err w4 of
                                                None \<Rightarrow> (Aborted, w4)
                                              | Some w5 \<Rightarrow> (Returned 1, w5))))))))"

lemma safe_read_decreases:
  "(Some bs, w1) = safe_read count w \<Longrightarrow> bs \<noteq> [] \<Longrightarrow> remaining w1 < remaining w"
proof -
  assume a: "(Some bs, w1) = safe_read count w" and ne: "bs \<noteq> []"
  from a have eq: "safe_read count w = (Some bs, w1)" by simp
  from safe_read_Some[OF eq] have "length bs \<le> remaining w" by simp
  moreover from safe_read_remaining[OF eq] have "remaining w1 = remaining w - length bs" .
  moreover from ne have "0 < length bs" by simp
  ultimately show ?thesis by linarith
qed

lemma safe_read_nonempty_count:
  "(Some bs, w1) = safe_read count w \<Longrightarrow> bs \<noteq> [] \<Longrightarrow> 0 < count"
  using safe_read_length[of count w bs w1] by (cases bs) auto

subsection \<open>Searching a buffer for newlines\<close>

text \<open>\<open>memchr buf ch\<close> is the index of the first \<open>ch\<close> in \<open>buf\<close> and
  \<open>memrchr buf ch n\<close> the index of the last \<open>ch\<close> among the first \<open>n\<close> bytes of
  \<open>buf\<close>; \<open>None\<close> is the null pointer.\<close>

fun memchr :: "byte list \<Rightarrow> byte \<Rightarrow> nat option" where
  "memchr [] ch = None"
| "memchr (x # xs) ch = (if x = ch then Some 0 else map_option Suc (memchr xs ch))"

fun memrchr :: "byte list \<Rightarrow> byte \<Rightarrow> nat \<Rightarrow> nat option" where
  "memrchr buf ch 0 = None"
| "memrchr buf ch (Suc n) = (if n < length buf \<and> buf ! n = ch then Some n else memrchr buf ch n)"

text \<open>The loop of lines 508 to 512: the number of newlines of the bytes just read.\<close>

fun count_newlines :: "byte list \<Rightarrow> nat" where
  "count_newlines [] = 0"
| "count_newlines (x # xs) = (if x = NL then Suc (count_newlines xs) else count_newlines xs)"

text \<open>The loop of lines 574 to 579 on the bytes from \<open>p\<close> to the end of the buffer,
  \<open>off\<close> being the offset of \<open>p\<close>: the offset of \<open>p\<close> after the loop, \<open>None\<close> when
  \<open>p\<close> is then the null pointer.\<close>

fun skip_lines :: "nat \<Rightarrow> byte list \<Rightarrow> nat \<Rightarrow> nat option" where
  "skip_lines 0 rest off = Some off"
| "skip_lines (Suc n) rest off =
     (case memchr rest NL of
        None \<Rightarrow> None
      | Some j \<Rightarrow> skip_lines n (drop (Suc j) rest) (off + Suc j))"

subsection \<open>elide_tail_lines_pipe\<close>

text \<open>
  A \<^verbatim>\<open>struct linebuffer\<close>: \<open>lb_buffer\<close> is the first \<^verbatim>\<open>nbytes\<close> bytes of its
  \<^verbatim>\<open>buffer\<close>, so \<^verbatim>\<open>nbytes\<close> is the length of \<open>lb_buffer\<close>. The linked list from
  \<^verbatim>\<open>first\<close> to \<^verbatim>\<open>last\<close> is \<open>front @ [lst]\<close>.
\<close>

record linebuffer =
  lb_buffer :: "byte list"
  lb_nlines :: nat

text \<open>The reading loop (lines 495 to 543): the list, \<^verbatim>\<open>total_lines\<close> and whether the
  last read failed.\<close>

function lines_pipe_fill ::
  "config \<Rightarrow> nat \<Rightarrow> linebuffer list \<Rightarrow> linebuffer \<Rightarrow> nat \<Rightarrow> world \<Rightarrow>
     linebuffer list \<times> linebuffer \<times> nat \<times> bool \<times> world" where
  "lines_pipe_fill c n_elide front lst total_lines w =
     (case safe_read (BUFSIZ c) w of
        (None, w1) \<Rightarrow> (front, lst, total_lines, True, w1)
      | (Some data, w1) \<Rightarrow>
          if length data = 0 then (front, lst, total_lines, False, w1)
          else
            (let tmp = \<lparr>lb_buffer = data, lb_nlines = count_newlines data\<rparr>;
                 total' = total_lines + lb_nlines tmp
             in if length (lb_buffer tmp) + length (lb_buffer lst) < BUFSIZ c then
                  lines_pipe_fill c n_elide front
                    (lst\<lparr>lb_buffer := lb_buffer lst @ lb_buffer tmp,
                         lb_nlines := lb_nlines lst + lb_nlines tmp\<rparr>)
                    total' w1
                else
                  (let first = hd (front @ [lst]) in
                   if n_elide < total' - lb_nlines first then
                     (case fwrite Site_lines_pipe (lb_buffer first) w1 of
                        (k, w2) \<Rightarrow>
                          lines_pipe_fill c n_elide (tl (front @ [lst])) tmp
                            (total' - lb_nlines first) w2)
                   else lines_pipe_fill c n_elide (front @ [lst]) tmp total' w1)))"
  by pat_completeness auto
termination
  by (relation "measure (\<lambda>(c, n_elide, front, lst, total_lines, w). remaining w)")
     (auto dest!: fwrite_remaining_eq dest: safe_read_decreases)

declare lines_pipe_fill.simps [simp del]

text \<open>The loop of lines 562 to 566 on the list from \<^verbatim>\<open>tmp\<close> on: the buffer it stops
  at (\<open>None\<close>: the null pointer was dereferenced), \<^verbatim>\<open>total_lines\<close> and the world.\<close>

fun lines_pipe_flush ::
  "nat \<Rightarrow> linebuffer list \<Rightarrow> nat \<Rightarrow> world \<Rightarrow> linebuffer option \<times> nat \<times> world" where
  "lines_pipe_flush n_elide [] total_lines w = (None, total_lines, w)"
| "lines_pipe_flush n_elide (tmp # rest) total_lines w =
     (if n_elide < total_lines - lb_nlines tmp
      then lines_pipe_flush n_elide rest (total_lines - lb_nlines tmp)
             (snd (fwrite Site_lines_pipe (lb_buffer tmp) w))
      else (Some tmp, total_lines, w))"

definition elide_tail_lines_pipe :: "config \<Rightarrow> nat \<Rightarrow> world \<Rightarrow> ending \<times> world" where
  "elide_tail_lines_pipe c n_elide w =
     (case lines_pipe_fill c n_elide [] \<lparr>lb_buffer = [], lb_nlines = 0\<rparr> 0 w of
        (front, lst, total_lines, read_failed, w1) \<Rightarrow>
          if read_failed then (Returned 1, error Error_reading w1)
          else
            (let incomplete = (lb_buffer lst \<noteq> [] \<and> last (lb_buffer lst) \<noteq> NL);
                 lst' = (if incomplete then lst\<lparr>lb_nlines := lb_nlines lst + 1\<rparr> else lst);
                 total_lines' = (if incomplete then total_lines + 1 else total_lines)
             in case lines_pipe_flush n_elide (front @ [lst']) total_lines' w1 of
                  (None, _, w2) \<Rightarrow> (Undefined_behaviour, w2)
                | (Some tmp, total_left, w2) \<Rightarrow>
                    if n_elide < total_left then
                      (case skip_lines (total_left - n_elide) (lb_buffer tmp) 0 of
                         None \<Rightarrow> (Undefined_behaviour, w2)
                       | Some p \<Rightarrow>
                           (case slice (lb_buffer tmp) 0 p of
                              None \<Rightarrow> (Undefined_behaviour, w2)
                            | Some bs \<Rightarrow> (Returned 0, snd (fwrite Site_lines_pipe bs w2))))
                    else (Returned 0, w2)))"

subsection \<open>elide_tail_lines_seekable\<close>

text \<open>The remainder of C's \<^verbatim>\<open>%\<close>, which has the sign of the dividend.\<close>

definition c_rem :: "int \<Rightarrow> int \<Rightarrow> int" where
  "c_rem a b = sgn a * (\<bar>a\<bar> mod \<bar>b\<bar>)"

text \<open>
  The scan of lines 643 to 683 over the first \<open>n\<close> bytes of the buffer: the index of the
  newline at which \<^verbatim>\<open>n_lines-- == 0\<close> held, if any, and \<^verbatim>\<open>n_lines\<close> after the scan.
\<close>

lemma memrchr_less: "memrchr buf ch n = Some j \<Longrightarrow> j < n"
  by (induction n) (auto split: if_splits)

function scan_back :: "config \<Rightarrow> byte list \<Rightarrow> nat \<Rightarrow> nat \<Rightarrow> nat option \<times> nat" where
  "scan_back c buffer n n_lines =
     (if n = 0 then (None, n_lines)
      else
        (case memrchr buffer NL n of
           None \<Rightarrow> (None, n_lines)
         | Some nl \<Rightarrow>
             if n_lines = 0 then (Some nl, to_uintmax_t c (int n_lines - 1))
             else scan_back c buffer nl (to_uintmax_t c (int n_lines - 1))))"
  by pat_completeness auto
termination
  by (relation "measure (\<lambda>(c, buffer, n, n_lines). n)") (auto dest: memrchr_less)

declare scan_back.simps [simp del]

lemma lseek_nonneg:
  "(r, w1) = lseek offset SEEK_SET w \<Longrightarrow> \<not> r < 0 \<Longrightarrow> 0 \<le> offset"
  by (auto simp: lseek_def seek_target_def Let_def split: if_splits option.splits)

function lines_seekable_loop ::
  "config \<Rightarrow> int \<Rightarrow> int \<Rightarrow> byte list \<Rightarrow> nat \<Rightarrow> world \<Rightarrow> ending \<times> world" where
  "lines_seekable_loop c start_pos pos buffer n_lines w =
     (case scan_back c buffer (length buffer) n_lines of
        (Some n, _) \<Rightarrow>
          if start_pos < pos then
            (case lseek start_pos SEEK_SET w of
               (r, w1) \<Rightarrow>
                 if r < 0 then (Returned 1, error Unable_to_restore_file_pointer w1)
                 else
                   (case copy_fd c (nat (pos - start_pos)) w1 of
                      (err, w2) \<Rightarrow>
                        if err \<noteq> COPY_FD_OK then
                          (case diagnose_copy_fd_failure err w2 of
                             None \<Rightarrow> (Aborted, w2)
                           | Some w3 \<Rightarrow> (Returned 1, w3))
                        else
                          (case slice buffer 0 (n + 1) of
                             None \<Rightarrow> (Undefined_behaviour, w2)
                           | Some bs \<Rightarrow> (Returned 0, snd (fwrite Site_lines_seekable bs w2)))))
          else
            (case slice buffer 0 (n + 1) of
               None \<Rightarrow> (Undefined_behaviour, w)
             | Some bs \<Rightarrow> (Returned 0, snd (fwrite Site_lines_seekable bs w)))
      | (None, n_lines') \<Rightarrow>
          if pos = start_pos then (Returned 0, w)
          else
            (let pos' = pos - int (BUFSIZ c) in
             case lseek pos' SEEK_SET w of
               (r, w1) \<Rightarrow>
                 if r < 0 then (Returned 1, error (Cannot_seek_to_offset pos') w1)
                 else
                   (case safe_read (BUFSIZ c) w1 of
                      (None, w2) \<Rightarrow> (Returned 1, error Error_reading w2)
                    | (Some data, w2) \<Rightarrow>
                        if length data = 0 then (Returned 0, w2)
                        else lines_seekable_loop c start_pos pos' data n_lines' w2)))"
  by pat_completeness auto
termination
  by (relation "measure (\<lambda>(c, start_pos, pos, buffer, n_lines, w). nat pos)")
     (auto dest!: lseek_nonneg dest!: safe_read_nonempty_count)

declare lines_seekable_loop.simps [simp del]

text \<open>
  \<^verbatim>\<open>start_pos\<close>, \<^verbatim>\<open>end_pos\<close> and \<^verbatim>\<open>pos\<close> are \<^verbatim>\<open>off_t\<close> values; the only caller
  passes \<open>0 \<le> start_pos < end_pos\<close>. With \<^verbatim>\<open>BUFSIZ = 0\<close> line 615 divides by zero.
\<close>

definition elide_tail_lines_seekable ::
  "config \<Rightarrow> nat \<Rightarrow> int \<Rightarrow> int \<Rightarrow> world \<Rightarrow> ending \<times> world" where
  "elide_tail_lines_seekable c n_lines start_pos end_pos w =
     (if BUFSIZ c = 0 then (Undefined_behaviour, w)
      else
        (let r0 = to_size_t c (c_rem (end_pos - start_pos) (int (BUFSIZ c)));
             bytes_read = (if r0 = 0 then BUFSIZ c else r0);
             pos = end_pos - int bytes_read
         in case lseek pos SEEK_SET w of
              (r, w1) \<Rightarrow>
                if r < 0 then (Returned 1, error (Cannot_seek_to_offset pos) w1)
                else
                  (case safe_read bytes_read w1 of
                     (None, w2) \<Rightarrow> (Returned 1, error Error_reading w2)
                   | (Some buffer, w2) \<Rightarrow>
                       (let n_lines' = (if buffer \<noteq> [] \<and> last buffer \<noteq> NL
                                        then to_uintmax_t c (int n_lines - 1) else n_lines)
                        in lines_seekable_loop c start_pos pos buffer n_lines' w2))))"

subsection \<open>elide_tail_lines_file\<close>

definition elide_tail_lines_file :: "config \<Rightarrow> nat \<Rightarrow> world \<Rightarrow> ending \<times> world" where
  "elide_tail_lines_file c n_elide w =
     (if \<not> presume_input_pipe c then
        (case lseek 0 SEEK_CUR w of
           (start_pos, w1) \<Rightarrow>
             (case lseek 0 SEEK_END w1 of
                (end_pos, w2) \<Rightarrow>
                  if 0 \<le> start_pos \<and> start_pos < end_pos then
                    (if end_pos = 0 then (Returned 0, w2)
                     else elide_tail_lines_seekable c n_elide start_pos end_pos w2)
                  else elide_tail_lines_pipe c n_elide w2))
      else elide_tail_lines_pipe c n_elide w)"

subsection \<open>Builds and worlds used as examples\<close>

text \<open>
  \<open>default_config\<close> is the default build with glibc on an LP64 system (\<^verbatim>\<open>BUFSIZ\<close> 8192,
  64-bit \<^verbatim>\<open>size_t\<close>, \<^verbatim>\<open>uintmax_t\<close> and \<^verbatim>\<open>off_t\<close>, 32-bit \<^verbatim>\<open>int\<close>) and
  \<open>ilp32_config\<close> the same with a 32-bit \<^verbatim>\<open>size_t\<close> (an ILP32 system with large
  file support); \<open>small_config\<close> is a build with
  \<^verbatim>\<open>-DHEAD_TAIL_PIPE_READ_BUFSIZE=4 -DHEAD_TAIL_PIPE_BYTECOUNT_THRESHOLD=8\<close>.
  \<open>pipe bs\<close> is a pipe that delivers \<open>bs\<close>, \<open>regular_file bs p\<close> a regular file
  of content \<open>bs\<close> open at offset \<open>p\<close>, both on a system with \<^verbatim>\<open>SEEK_DATA\<close> and
  \<^verbatim>\<open>SEEK_HOLE\<close>; reads, writes and seeks succeed.
\<close>

definition default_config :: config where
  "default_config =
     \<lparr>BUFSIZ = 8192, READ_BUFSIZE = 8192, BYTECOUNT_THRESHOLD = 1048576,
      SIZE_MAX = 18446744073709551615, UINTMAX_MAX = 18446744073709551615,
      INT_MAX = 2147483647, OFF_T_MAX = 9223372036854775807,
      presume_input_pipe = False\<rparr>"

definition ilp32_config :: config where
  "ilp32_config =
     \<lparr>BUFSIZ = 8192, READ_BUFSIZE = 8192, BYTECOUNT_THRESHOLD = 1048576,
      SIZE_MAX = 4294967295, UINTMAX_MAX = 18446744073709551615,
      INT_MAX = 2147483647, OFF_T_MAX = 9223372036854775807,
      presume_input_pipe = False\<rparr>"

definition small_config :: config where
  "small_config =
     \<lparr>BUFSIZ = 8192, READ_BUFSIZE = 4, BYTECOUNT_THRESHOLD = 8,
      SIZE_MAX = 18446744073709551615, UINTMAX_MAX = 18446744073709551615,
      INT_MAX = 2147483647, OFF_T_MAX = 9223372036854775807,
      presume_input_pipe = False\<rparr>"

definition pipe :: "byte list \<Rightarrow> world" where
  "pipe bs =
     \<lparr>src = bs, src_pos = 0, src_fstat_ok = True, src_is_reg = False, src_seekable = False,
      src_seek_data_hole = True, read_plan = [], write_plan = [], seek_plan = [], out = [], diag = [], trace = []\<rparr>"

definition regular_file :: "byte list \<Rightarrow> nat \<Rightarrow> world" where
  "regular_file bs p =
     \<lparr>src = bs, src_pos = p, src_fstat_ok = True, src_is_reg = True, src_seekable = True,
      src_seek_data_hole = True, read_plan = [], write_plan = [], seek_plan = [], out = [], diag = [], trace = []\<rparr>"

lemmas env_defs =
  log_def error_def deliver_def safe_read_def fwrite_def lseek_def seek_target_def
  SEEK_SET_def SEEK_CUR_def SEEK_END_def SEEK_DATA_def SEEK_HOLE_def
  to_size_t_def to_uintmax_t_def to_int_def slice_def store_def
  xmalloc_def block_at_def write_block_def c_not_def c_rem_def NL_def
  small_delta_def small_previous_round_def
  ring_rem_def ring_n_elide_round_def ring_n_bufs_def
  diagnose_copy_fd_failure_def Let_def

lemmas example_defs =
  default_config_def ilp32_config_def small_config_def pipe_def regular_file_def

subsection \<open>What a trace says\<close>

fun bytes_read :: "event list \<Rightarrow> nat" where
  "bytes_read [] = 0"
| "bytes_read (Ev_read k # es) = k + bytes_read es"
| "bytes_read (_ # es) = bytes_read es"


text \<open>A write that the stream did not accept in full.\<close>

fun short_write :: "event \<Rightarrow> bool" where
  "short_write (Ev_write _ req act) = (act < req)"
| "short_write _ = False"


text \<open>
  The writes whose result the code tests: line 199 (\<open>copy_fd\<close>), line 302 (the prefix of
  the current buffer, double-buffer strategy) and line 352 (the oldest block, ring
  strategy). The results of the \<^verbatim>\<open>fwrite\<close> calls of lines 297, 369 to 393, 535, 564, 580
  and 680 are discarded.
\<close>

fun checked_site :: "wsite \<Rightarrow> bool" where
  "checked_site Site_copy_fd = True"
| "checked_site Site_small_prefix = True"
| "checked_site Site_ring_loop = True"
| "checked_site _ = False"

text \<open>A short write at a place where the code tests the result.\<close>

fun checked_failure :: "event \<Rightarrow> bool" where
  "checked_failure (Ev_write s req act) = (checked_site s \<and> act < req)"
| "checked_failure _ = False"

text \<open>
  \<open>silent w0 w\<close>: from \<open>w0\<close> to \<open>w\<close> the trace, the output and the diagnostics
  have only grown, and no tested write was short.
\<close>

definition silent :: "world \<Rightarrow> world \<Rightarrow> bool" where
  "silent w0 w \<longleftrightarrow>
     (\<exists>evs. trace w = trace w0 @ evs \<and> (\<forall>e\<in>set evs. \<not> checked_failure e)) \<and>
     (\<exists>bs. out w = out w0 @ bs) \<and> (\<exists>ds. diag w = diag w0 @ ds)"

text \<open>
  \<open>reported w0 e w'\<close>: from \<open>w0\<close> to \<open>w'\<close> the trace and the output have only grown, a
  short tested write can only be the last event, and when there is one the call returns 1
  and the last diagnostic is "error writing" or "write error".
\<close>

definition reported :: "world \<Rightarrow> ending \<Rightarrow> world \<Rightarrow> bool" where
  "reported w0 e w' \<longleftrightarrow>
     (\<exists>evs. trace w' = trace w0 @ evs \<and> (\<forall>ev\<in>set (butlast evs). \<not> checked_failure ev) \<and>
        ((\<exists>ev\<in>set evs. checked_failure ev) \<longrightarrow>
           e = Returned 1 \<and>
           (\<exists>ds d. diag w' = diag w0 @ ds @ [d] \<and> (d = Error_writing \<or> d = Write_error)))) \<and>
     (\<exists>bs. out w' = out w0 @ bs)"

subsection \<open>copy_fd: the status and what was transferred\<close>


subsection \<open>copy_fd: what the source and the sink do\<close>









subsection \<open>Evaluating the engine on a given input\<close>

lemmas bytes_simps =
  elide_tail_bytes_pipe_def elide_small_def elide_ring_def elide_small_loop.simps
  elide_ring_loop.simps full_read.simps ring_remainder_def elide_tail_bytes_file_def copy_fd.simps

lemmas lines_simps =
  elide_tail_lines_file_def elide_tail_lines_pipe_def elide_tail_lines_seekable_def
  lines_pipe_fill.simps lines_seekable_loop.simps scan_back.simps copy_fd.simps

subsection \<open>elide_tail_bytes_file: the seek back to the start\<close>

lemma copy_fd_at_eof:
  "read_plan w = [] \<Longrightarrow> length (src w) \<le> src_pos w \<Longrightarrow> 0 < n \<Longrightarrow>
     copy_fd c n w = (COPY_FD_UNEXPECTED_EOF, log (Ev_read 0) w)"
  by (subst copy_fd.simps) (simp add: safe_read_def deliver_def Let_def)

text \<open>
  Claim C4 asks that a regular file open at offset \<open>start\<close> with more than \<open>n_elide\<close>
  bytes after it be repositioned to \<open>start\<close> and copied from there. Line 450 calls
  \<^verbatim>\<open>lseek (fd, 0, current_pos)\<close>: the offset is 0 and \<^verbatim>\<open>current_pos\<close> stands where
  \<^verbatim>\<open>SEEK_SET\<close> should, against the comment of line 448 ("Seek back to `current'
  position"). Whenever the start, converted to \<^verbatim>\<open>int\<close>, is \<^verbatim>\<open>SEEK_CUR\<close> or
  \<^verbatim>\<open>SEEK_END\<close> (the starts 1 and 2, and those that differ from them by a multiple of
  the number of values of \<^verbatim>\<open>int\<close>), the descriptor stays at the end of the file, where
  the probe of line 435 left it, \<open>copy_fd\<close> meets the end of the file at once and the
  call returns 1 with "file has shrunk too much", having written nothing of the bytes it
  was to write.
\<close>

theorem elide_tail_bytes_file_nonzero_offset:
  assumes "\<not> presume_input_pipe c" "src_fstat_ok w" "src_is_reg w" "src_seekable w"
    and "seek_plan w = []" "read_plan w = []"
    and "to_int c (int (src_pos w)) = SEEK_CUR \<or> to_int c (int (src_pos w)) = SEEK_END"
    and "n_elide < length (src w) - src_pos w"
  shows "fst (elide_tail_bytes_file c n_elide w) = Returned 1
     \<and> out (snd (elide_tail_bytes_file c n_elide w)) = out w
     \<and> diag (snd (elide_tail_bytes_file c n_elide w)) = diag w @ [File_has_shrunk]
     \<and> src_pos (snd (elide_tail_bytes_file c n_elide w)) = length (src w)
     \<and> take (length (src w) - src_pos w - n_elide) (drop (src_pos w) (src w)) \<noteq> []"
proof -
  let ?e = "length (src w)"
  let ?wh = "to_int c (int (src_pos w))"
  have cur: "lseek 0 SEEK_CUR w = (int (src_pos w), log (Ev_seek 0 SEEK_CUR (int (src_pos w))) w)"
    using assms by (simp add: lseek_def seek_target_def SEEK_SET_def SEEK_CUR_def Let_def log_def)
  let ?w1 = "log (Ev_seek 0 SEEK_CUR (int (src_pos w))) w"
  have end1: "lseek 0 SEEK_END ?w1 = (int ?e, log (Ev_seek 0 SEEK_END (int ?e)) (?w1\<lparr>src_pos := ?e\<rparr>))"
    using assms
    by (simp add: lseek_def seek_target_def SEEK_SET_def SEEK_CUR_def SEEK_END_def Let_def log_def)
  let ?w2 = "log (Ev_seek 0 SEEK_END (int ?e)) (?w1\<lparr>src_pos := ?e\<rparr>)"
  have rem: "\<not> (if int ?e - int (src_pos w) < 0 then 0 else nat (int ?e - int (src_pos w))) \<le> n_elide"
    using assms by auto
  have npos: "0 < (if int ?e - int (src_pos w) < 0 then 0 else nat (int ?e - int (src_pos w))) - n_elide"
    using assms by auto
  have tgt: "seek_target 0 ?wh ?w2 = Some (int ?e)"
    using assms(7) by (auto simp: seek_target_def SEEK_SET_def SEEK_CUR_def SEEK_END_def log_def)
  have sb: "lseek 0 ?wh ?w2 = (int ?e, log (Ev_seek 0 ?wh (int ?e)) ?w2)"
    using assms(4,5) tgt by (simp add: lseek_def Let_def log_def)
  let ?w3 = "log (Ev_seek 0 ?wh (int ?e)) ?w2"
  have cp: "copy_fd c ((if int ?e - int (src_pos w) < 0 then 0 else nat (int ?e - int (src_pos w))) - n_elide) ?w3
      = (COPY_FD_UNEXPECTED_EOF, log (Ev_read 0) ?w3)"
    by (rule copy_fd_at_eof) (use assms npos in \<open>simp_all add: log_def\<close>)
  have ne: "take (length (src w) - src_pos w - n_elide) (drop (src_pos w) (src w)) \<noteq> []"
    using assms(8) by auto
  have run: "elide_tail_bytes_file c n_elide w = (Returned 1, error File_has_shrunk (log (Ev_read 0) ?w3))"
    using cur end1 sb rem cp assms(1,2,3)
    by (simp add: elide_tail_bytes_file_def Let_def diagnose_copy_fd_failure_def)
  show ?thesis
    unfolding run using ne by (simp add: error_def log_def)
qed

theorem elide_tail_bytes_file_nonzero_offset_witness:
  "to_int default_config (int (src_pos (regular_file ''abcdef'' 1))) = SEEK_CUR
   \<and> fst (elide_tail_bytes_file default_config 1 (regular_file ''abcdef'' 1)) = Returned 1
   \<and> out (snd (elide_tail_bytes_file default_config 1 (regular_file ''abcdef'' 1))) = []
   \<and> diag (snd (elide_tail_bytes_file default_config 1 (regular_file ''abcdef'' 1))) = [File_has_shrunk]
   \<and> src_pos (snd (elide_tail_bytes_file default_config 1 (regular_file ''abcdef'' 1))) = 6
   \<and> take (6 - 1 - 1) (drop 1 ''abcdef'') = ''bcde''"
  using elide_tail_bytes_file_nonzero_offset[of default_config "regular_file ''abcdef'' 1" 1]
  by (simp add: example_defs to_int_def SEEK_CUR_def)

text \<open>
  The other starts. A start that converts to \<^verbatim>\<open>SEEK_SET\<close> makes line 450 seek to
  offset 0, which is the start only when the start is 0. Where the system has
  \<^verbatim>\<open>SEEK_DATA\<close> and \<^verbatim>\<open>SEEK_HOLE\<close>, the start 3 makes it seek to offset 0 and the
  call copy from there, and the start 4 leaves the descriptor at the end of the file;
  where it has not, \<^verbatim>\<open>lseek\<close> refuses the starts 3 and 4.
\<close>

lemma elide_tail_bytes_file_other_offsets:
  "elide_tail_bytes_file default_config 1 (regular_file ''abcdefgh'' 0) =
     (Returned 0,
      (regular_file ''abcdefgh'' 7)
        \<lparr>out := ''abcdefg'',
          trace := [Ev_seek 0 1 0, Ev_seek 0 2 8, Ev_seek 0 0 0, Ev_read 7,
                    Ev_write Site_copy_fd 7 7]\<rparr>)
   \<and> elide_tail_bytes_file default_config 1 (regular_file ''abcdefgh'' 3) =
     (Returned 0,
      (regular_file ''abcdefgh'' 4)
        \<lparr>out := ''abcd'',
          trace := [Ev_seek 0 1 3, Ev_seek 0 2 8, Ev_seek 0 3 0, Ev_read 4,
                    Ev_write Site_copy_fd 4 4]\<rparr>)
   \<and> elide_tail_bytes_file default_config 1 (regular_file ''abcdefgh'' 4) =
     (Returned 1,
      (regular_file ''abcdefgh'' 8)
        \<lparr>diag := [File_has_shrunk],
          trace := [Ev_seek 0 1 4, Ev_seek 0 2 8, Ev_seek 0 4 8, Ev_read 0]\<rparr>)
   \<and> elide_tail_bytes_file default_config 1
       ((regular_file ''abcdefgh'' 3)\<lparr>src_seek_data_hole := False\<rparr>) =
     (Returned 1,
      (regular_file ''abcdefgh'' 8)
        \<lparr>src_seek_data_hole := False, diag := [Cannot_lseek_back],
          trace := [Ev_seek 0 1 3, Ev_seek 0 2 8, Ev_seek 0 3 (- 1)]\<rparr>)"
  by (simp add: env_defs example_defs bytes_simps)

subsection \<open>Line elision with a count of 0\<close>

text \<open>
  Claim C2 asks that the last N logical lines be removed, an unterminated last line
  counting as one. For N = 0 and the input \<open>abc\<close> nothing is to be removed. The streaming
  variant looks for one newline more than the buffer holds (line 574 leaves \<^verbatim>\<open>p\<close> null
  and line 580 writes \<^verbatim>\<open>p - tmp->buffer\<close> bytes); the seekable variant decrements the
  count 0 at line 637, finds no cut point and writes nothing.
\<close>

theorem lines_zero_count_unterminated:
  "fst (elide_tail_lines_pipe default_config 0 (pipe ''abc'')) = Undefined_behaviour
   \<and> out (snd (elide_tail_lines_pipe default_config 0 (pipe ''abc''))) = []
   \<and> fst (elide_tail_lines_seekable default_config 0 0 3 (regular_file ''abc'' 3)) = Returned 0
   \<and> out (snd (elide_tail_lines_seekable default_config 0 0 3 (regular_file ''abc'' 3))) = []"
  by (simp add: env_defs example_defs lines_simps)

subsection \<open>The slots of the ring\<close>

text \<open>
  Claim C10 asks for \<open>ceil (n_elide / READ_BUFSIZE) + 1\<close> blocks. Line 325 sets
  \<^verbatim>\<open>rem\<close> to \<^verbatim>\<open>READ_BUFSIZE\<close>, not to 0, when \<open>n_elide\<close> is a multiple of
  \<^verbatim>\<open>READ_BUFSIZE\<close>: for \<open>n_elide\<close> = 2 MiB the array has 258 slots where the claim has 257.
\<close>

theorem ring_slots_multiple:
  "ring_n_bufs default_config 2097152 = 258
   \<and> (2097152 + READ_BUFSIZE default_config - 1) div READ_BUFSIZE default_config + 1 = 257
   \<and> trace (snd (elide_tail_bytes_pipe default_config 2097152 (pipe []))) =
       [Ev_alloc 258, Ev_alloc 8192, Ev_read 0]"
  by (simp add: env_defs example_defs bytes_simps)

subsection \<open>The test of the count against SIZE_MAX\<close>




text \<open>
  The test of \<^verbatim>\<open>main\<close> is needed: the sum of line 231 wraps around for the counts
  above \<^verbatim>\<open>UINTMAX_MAX\<close> minus the read-buffer size, which \<^verbatim>\<open>main\<close> refuses. On the
  default build, where \<^verbatim>\<open>size_t\<close> is as wide as \<^verbatim>\<open>uintmax_t\<close>, no count that
  \<^verbatim>\<open>main\<close> lets through exceeds \<^verbatim>\<open>SIZE_MAX\<close> with the read-buffer size added; on
  the build with a 32-bit \<^verbatim>\<open>size_t\<close> the counts from \<open>2^32 - 8192\<close> on do.
\<close>

lemma line_231_sum_wraps:
  "count_too_large default_config False True 18446744073709551615
   \<and> SIZE_MAX default_config < 18446744073709551615 + READ_BUFSIZE default_config
   \<and> \<not> SIZE_MAX default_config <
         to_uintmax_t default_config (18446744073709551615 + int (READ_BUFSIZE default_config))"
  by (simp add: example_defs count_too_large_def to_uintmax_t_def)

lemma count_overflow_default_build:
  "\<not> count_too_large default_config False True n \<Longrightarrow>
     \<not> SIZE_MAX default_config < n + READ_BUFSIZE default_config"
  by (simp add: example_defs count_too_large_def)

subsection \<open>The choice between the seekable and the streaming variant\<close>

text \<open>The two probes of lines 732 and 733 (and 434, 435): the start offset, the end offset
  and the world after them.\<close>

definition probe_offsets :: "world \<Rightarrow> int \<times> int \<times> world" where
  "probe_offsets w =
     (case lseek 0 SEEK_CUR w of
        (start_pos, w1) \<Rightarrow> (case lseek 0 SEEK_END w1 of (end_pos, w2) \<Rightarrow> (start_pos, end_pos, w2)))"

text \<open>
  Claim C6, as stated, fails for bytes: a regular file whose first \<^verbatim>\<open>lseek\<close> fails
  makes \<open>elide_tail_bytes_file\<close> return 1 with "cannot lseek" (lines 434 to 439), where
  the streaming variant on the same descriptor would have written \<open>abcde\<close> and returned 0.
\<close>

theorem dispatch_counterexample:
  "src_is_reg ((regular_file ''abcdef'' 0)\<lparr>seek_plan := [False]\<rparr>)
   \<and> fst (lseek 0 SEEK_CUR ((regular_file ''abcdef'' 0)\<lparr>seek_plan := [False]\<rparr>)) = - 1
   \<and> elide_tail_bytes_file default_config 1 ((regular_file ''abcdef'' 0)\<lparr>seek_plan := [False]\<rparr>) =
       (Returned 1, (regular_file ''abcdef'' 0)\<lparr>diag := [Cannot_lseek], trace := [Ev_seek 0 1 (- 1)]\<rparr>)
   \<and> fst (elide_tail_bytes_pipe default_config 1
            (snd (lseek 0 SEEK_CUR ((regular_file ''abcdef'' 0)\<lparr>seek_plan := [False]\<rparr>)))) = Returned 0
   \<and> out (snd (elide_tail_bytes_pipe default_config 1
            (snd (lseek 0 SEEK_CUR ((regular_file ''abcdef'' 0)\<lparr>seek_plan := [False]\<rparr>))))) = ''abcde''"
  by (simp add: env_defs example_defs bytes_simps)

text \<open>
  Claim C6, amended. Bytes: the streaming variant runs exactly when
  \<^verbatim>\<open>presume_input_pipe\<close> is set, \<^verbatim>\<open>fstat\<close> fails or the file is not regular, and
  its result is returned; for a regular file a failed offset probe makes the call return 1
  with "cannot lseek", nothing written and the offset unchanged, and two probes that
  succeed are followed by the seekable path of lines 441 to 462: nothing more is done when
  at most \<open>n\<close> bytes lie between the two offsets, and otherwise the \<^verbatim>\<open>lseek\<close> of
  line 450 and, if that succeeds, \<open>copy_fd\<close> of the bytes that remain less \<open>n\<close>, whose
  status decides the result. Lines: with
  \<^verbatim>\<open>presume_input_pipe\<close> the streaming variant runs; otherwise the seekable variant runs
  exactly when the probes give \<open>0 \<le> start_pos < end_pos\<close>, and in every other case (a
  failed probe, an empty rest) the streaming variant runs after the probes and its result
  is returned.
\<close>

theorem dispatch_selection:
  "(presume_input_pipe c \<or> \<not> src_fstat_ok w \<or> \<not> src_is_reg w \<longrightarrow>
      elide_tail_bytes_file c n w = elide_tail_bytes_pipe c n w)
   \<and> (\<not> presume_input_pipe c \<and> src_fstat_ok w \<and> src_is_reg w \<and>
        (fst (probe_offsets w) = - 1 \<or> fst (snd (probe_offsets w)) = - 1) \<longrightarrow>
      (\<exists>w'. elide_tail_bytes_file c n w = (Returned 1, error Cannot_lseek w') \<and> out w' = out w
          \<and> src_pos w' = src_pos w))
   \<and> (\<not> presume_input_pipe c \<and> src_fstat_ok w \<and> src_is_reg w \<and>
        probe_offsets w = (start_pos, end_pos, w2) \<and> start_pos \<noteq> - 1 \<and> end_pos \<noteq> - 1 \<longrightarrow>
      elide_tail_bytes_file c n w =
        (if (if end_pos - start_pos < 0 then 0 else nat (end_pos - start_pos)) \<le> n
         then (Returned 0, w2)
         else
           (case lseek 0 (to_int c start_pos) w2 of
              (r, w3) \<Rightarrow>
                if r = - 1 then (Returned 1, error Cannot_lseek_back w3)
                else
                  (case copy_fd c ((if end_pos - start_pos < 0 then 0
                                    else nat (end_pos - start_pos)) - n) w3 of
                     (err, w4) \<Rightarrow>
                       if err = COPY_FD_OK then (Returned 0, w4)
                       else (case diagnose_copy_fd_failure err w4 of
                               None \<Rightarrow> (Aborted, w4)
                             | Some w5 \<Rightarrow> (Returned 1, w5))))))
   \<and> (presume_input_pipe c \<longrightarrow> elide_tail_lines_file c n w = elide_tail_lines_pipe c n w)
   \<and> (\<not> presume_input_pipe c \<and> probe_offsets w = (start_pos, end_pos, w2) \<longrightarrow>
        elide_tail_lines_file c n w =
          (if 0 \<le> start_pos \<and> start_pos < end_pos
           then elide_tail_lines_seekable c n start_pos end_pos w2
           else elide_tail_lines_pipe c n w2))"
proof (intro conjI impI)
  assume "presume_input_pipe c \<or> \<not> src_fstat_ok w \<or> \<not> src_is_reg w"
  then show "elide_tail_bytes_file c n w = elide_tail_bytes_pipe c n w"
    by (auto simp: elide_tail_bytes_file_def)
next
  assume a: "\<not> presume_input_pipe c \<and> src_fstat_ok w \<and> src_is_reg w \<and>
        (fst (probe_offsets w) = - 1 \<or> fst (snd (probe_offsets w)) = - 1)"
  obtain s w1 where s: "lseek 0 SEEK_CUR w = (s, w1)" by force
  obtain e w2 where e: "lseek 0 SEEK_END w1 = (e, w2)" by force
  have seek_keeps: "\<And>off wh v r v'. lseek off wh v = (r, v') \<Longrightarrow> r = - 1 \<Longrightarrow> out v' = out v \<and> src_pos v' = src_pos v"
    by (auto simp: lseek_def Let_def log_def split: if_splits option.splits)
  have seek_out: "\<And>off wh v r v'. lseek off wh v = (r, v') \<Longrightarrow> out v' = out v"
    by (auto simp: lseek_def Let_def log_def split: if_splits option.splits)
  show "\<exists>w'. elide_tail_bytes_file c n w = (Returned 1, error Cannot_lseek w') \<and> out w' = out w
          \<and> src_pos w' = src_pos w"
  proof (cases "s = - 1")
    case True
    with a s seek_keeps[OF s] show ?thesis
      by (intro exI[of _ w1]) (simp add: elide_tail_bytes_file_def)
  next
    case False
    with a s e have e1: "e = - 1" by (simp add: probe_offsets_def)
    have "src_pos w1 = src_pos w"
      using s False
      by (auto simp: lseek_def seek_target_def SEEK_CUR_def SEEK_SET_def Let_def log_def
               split: if_splits option.splits)
    with False e1 a s e seek_keeps[OF e e1] seek_out[OF s] show ?thesis
      by (intro exI[of _ w2]) (simp add: elide_tail_bytes_file_def)
  qed
next
  assume a: "\<not> presume_input_pipe c \<and> src_fstat_ok w \<and> src_is_reg w \<and>
        probe_offsets w = (start_pos, end_pos, w2) \<and> start_pos \<noteq> - 1 \<and> end_pos \<noteq> - 1"
  obtain s w1 where s: "lseek 0 SEEK_CUR w = (s, w1)" by force
  obtain e v2 where e: "lseek 0 SEEK_END w1 = (e, v2)" by force
  from a s e have eqs: "s = start_pos" "e = end_pos" "v2 = w2" by (simp_all add: probe_offsets_def)
  from a s e show "elide_tail_bytes_file c n w =
        (if (if end_pos - start_pos < 0 then 0 else nat (end_pos - start_pos)) \<le> n
         then (Returned 0, w2)
         else
           (case lseek 0 (to_int c start_pos) w2 of
              (r, w3) \<Rightarrow>
                if r = - 1 then (Returned 1, error Cannot_lseek_back w3)
                else
                  (case copy_fd c ((if end_pos - start_pos < 0 then 0
                                    else nat (end_pos - start_pos)) - n) w3 of
                     (err, w4) \<Rightarrow>
                       if err = COPY_FD_OK then (Returned 0, w4)
                       else (case diagnose_copy_fd_failure err w4 of
                               None \<Rightarrow> (Aborted, w4)
                             | Some w5 \<Rightarrow> (Returned 1, w5)))))"
    unfolding elide_tail_bytes_file_def Let_def s e eqs prod.case by simp
next
  assume "presume_input_pipe c"
  then show "elide_tail_lines_file c n w = elide_tail_lines_pipe c n w"
    by (simp add: elide_tail_lines_file_def)
next
  assume a: "\<not> presume_input_pipe c \<and> probe_offsets w = (start_pos, end_pos, w2)"
  then show "elide_tail_lines_file c n w =
          (if 0 \<le> start_pos \<and> start_pos < end_pos
           then elide_tail_lines_seekable c n start_pos end_pos w2
           else elide_tail_lines_pipe c n w2)"
    by (auto simp: elide_tail_lines_file_def probe_offsets_def split: prod.splits)
qed

theorem dispatch_selection_witness:
  "\<not> src_is_reg (pipe ''abcdef'')
   \<and> elide_tail_bytes_file default_config 1 (pipe ''abcdef'') =
       elide_tail_bytes_pipe default_config 1 (pipe ''abcdef'')
   \<and> fst (probe_offsets ((regular_file ''abcdef'' 0)\<lparr>seek_plan := [False]\<rparr>)) = - 1
   \<and> (\<exists>w'. elide_tail_bytes_file default_config 1 ((regular_file ''abcdef'' 0)\<lparr>seek_plan := [False]\<rparr>) =
         (Returned 1, error Cannot_lseek w') \<and> out w' = [] \<and> src_pos w' = 0)
   \<and> probe_offsets (regular_file ''abcdef'' 0) =
       (0, 6, (regular_file ''abcdef'' 6)\<lparr>trace := [Ev_seek 0 1 0, Ev_seek 0 2 6]\<rparr>)
   \<and> elide_tail_bytes_file default_config 1 (regular_file ''abcdef'' 0) =
       (Returned 0,
        (regular_file ''abcdef'' 5)
          \<lparr>out := ''abcde'',
            trace := [Ev_seek 0 1 0, Ev_seek 0 2 6, Ev_seek 0 0 0, Ev_read 5,
                      Ev_write Site_copy_fd 5 5]\<rparr>)
   \<and> elide_tail_bytes_file default_config 6 (regular_file ''abcdef'' 0) =
       (Returned 0, (regular_file ''abcdef'' 6)\<lparr>trace := [Ev_seek 0 1 0, Ev_seek 0 2 6]\<rparr>)
   \<and> elide_tail_lines_file (default_config\<lparr>presume_input_pipe := True\<rparr>) 1 (regular_file ''abc'' 0) =
       elide_tail_lines_pipe (default_config\<lparr>presume_input_pipe := True\<rparr>) 1 (regular_file ''abc'' 0)
   \<and> probe_offsets (regular_file ''abc'' 0) =
       (0, 3, (regular_file ''abc'' 3)\<lparr>trace := [Ev_seek 0 1 0, Ev_seek 0 2 3]\<rparr>)
   \<and> elide_tail_lines_file default_config 1 (regular_file ''abc'' 0) =
       elide_tail_lines_seekable default_config 1 0 3
         ((regular_file ''abc'' 3)\<lparr>trace := [Ev_seek 0 1 0, Ev_seek 0 2 3]\<rparr>)
   \<and> probe_offsets (pipe ''abc'') =
       (- 1, - 1, (pipe ''abc'')\<lparr>trace := [Ev_seek 0 1 (- 1), Ev_seek 0 2 (- 1)]\<rparr>)
   \<and> elide_tail_lines_file default_config 1 (pipe ''abc'') =
       elide_tail_lines_pipe default_config 1
         ((pipe ''abc'')\<lparr>trace := [Ev_seek 0 1 (- 1), Ev_seek 0 2 (- 1)]\<rparr>)"
proof -
  have p1: "probe_offsets ((regular_file ''abcdef'' 0)\<lparr>seek_plan := [False]\<rparr>) =
      (- 1, 6, (regular_file ''abcdef'' 6)\<lparr>trace := [Ev_seek 0 1 (- 1), Ev_seek 0 2 6]\<rparr>)"
    by (simp add: probe_offsets_def env_defs example_defs)
  have p2: "probe_offsets (regular_file ''abc'' 0) =
       (0, 3, (regular_file ''abc'' 3)\<lparr>trace := [Ev_seek 0 1 0, Ev_seek 0 2 3]\<rparr>)"
    by (simp add: probe_offsets_def env_defs example_defs)
  have p3: "probe_offsets (pipe ''abc'') =
       (- 1, - 1, (pipe ''abc'')\<lparr>trace := [Ev_seek 0 1 (- 1), Ev_seek 0 2 (- 1)]\<rparr>)"
    by (simp add: probe_offsets_def env_defs example_defs)
  have p4: "probe_offsets (regular_file ''abcdef'' 0) =
       (0, 6, (regular_file ''abcdef'' 6)\<lparr>trace := [Ev_seek 0 1 0, Ev_seek 0 2 6]\<rparr>)"
    by (simp add: probe_offsets_def env_defs example_defs)
  have c4: "\<not> presume_input_pipe default_config \<and> src_fstat_ok (regular_file ''abcdef'' 0)
      \<and> src_is_reg (regular_file ''abcdef'' 0)"
    by (simp add: example_defs)
  have c1: "\<not> src_is_reg (pipe ''abcdef'')" by (simp add: pipe_def)
  have c2: "\<not> presume_input_pipe default_config
      \<and> src_fstat_ok ((regular_file ''abcdef'' 0)\<lparr>seek_plan := [False]\<rparr>)
      \<and> src_is_reg ((regular_file ''abcdef'' 0)\<lparr>seek_plan := [False]\<rparr>)
      \<and> out ((regular_file ''abcdef'' 0)\<lparr>seek_plan := [False]\<rparr>) = []
      \<and> src_pos ((regular_file ''abcdef'' 0)\<lparr>seek_plan := [False]\<rparr>) = 0"
    by (simp add: example_defs)
  have c3: "presume_input_pipe (default_config\<lparr>presume_input_pipe := True\<rparr>)" by simp
  note d1 = dispatch_selection[of default_config "pipe ''abcdef''" 1]
  note d2 = dispatch_selection[of default_config "(regular_file ''abcdef'' 0)\<lparr>seek_plan := [False]\<rparr>" 1]
  note d3 = dispatch_selection[of "default_config\<lparr>presume_input_pipe := True\<rparr>" "regular_file ''abc'' 0" 1]
  note d4 = dispatch_selection[of default_config "regular_file ''abc'' 0" 1 0 3
      "(regular_file ''abc'' 3)\<lparr>trace := [Ev_seek 0 1 0, Ev_seek 0 2 3]\<rparr>"]
  note d5 = dispatch_selection[of default_config "pipe ''abc''" 1 "- 1" "- 1"
      "(pipe ''abc'')\<lparr>trace := [Ev_seek 0 1 (- 1), Ev_seek 0 2 (- 1)]\<rparr>"]
  note d6 = dispatch_selection[of default_config "regular_file ''abcdef'' 0" 1 0 6
      "(regular_file ''abcdef'' 6)\<lparr>trace := [Ev_seek 0 1 0, Ev_seek 0 2 6]\<rparr>"]
  note d7 = dispatch_selection[of default_config "regular_file ''abcdef'' 0" 6 0 6
      "(regular_file ''abcdef'' 6)\<lparr>trace := [Ev_seek 0 1 0, Ev_seek 0 2 6]\<rparr>"]
  have b1: "elide_tail_bytes_file default_config 1 (regular_file ''abcdef'' 0) =
       (Returned 0,
        (regular_file ''abcdef'' 5)
          \<lparr>out := ''abcde'',
            trace := [Ev_seek 0 1 0, Ev_seek 0 2 6, Ev_seek 0 0 0, Ev_read 5,
                      Ev_write Site_copy_fd 5 5]\<rparr>)"
    using d6 c4 p4 by (simp add: env_defs example_defs copy_fd.simps)
  have b2: "elide_tail_bytes_file default_config 6 (regular_file ''abcdef'' 0) =
       (Returned 0, (regular_file ''abcdef'' 6)\<lparr>trace := [Ev_seek 0 1 0, Ev_seek 0 2 6]\<rparr>)"
    using d7 c4 p4 by simp
  have "elide_tail_bytes_file default_config 1 (pipe ''abcdef'') =
       elide_tail_bytes_pipe default_config 1 (pipe ''abcdef'')"
    using d1 c1 by blast
  moreover have "\<exists>w'. elide_tail_bytes_file default_config 1 ((regular_file ''abcdef'' 0)\<lparr>seek_plan := [False]\<rparr>) =
         (Returned 1, error Cannot_lseek w') \<and> out w' = [] \<and> src_pos w' = 0"
    using d2 c2 p1 by simp
  moreover have "elide_tail_lines_file (default_config\<lparr>presume_input_pipe := True\<rparr>) 1 (regular_file ''abc'' 0) =
       elide_tail_lines_pipe (default_config\<lparr>presume_input_pipe := True\<rparr>) 1 (regular_file ''abc'' 0)"
    using d3 c3 by blast
  moreover have "elide_tail_lines_file default_config 1 (regular_file ''abc'' 0) =
       elide_tail_lines_seekable default_config 1 0 3
         ((regular_file ''abc'' 3)\<lparr>trace := [Ev_seek 0 1 0, Ev_seek 0 2 3]\<rparr>)"
    using d4 p2 c2 by simp
  moreover have "elide_tail_lines_file default_config 1 (pipe ''abc'') =
       elide_tail_lines_pipe default_config 1
         ((pipe ''abc'')\<lparr>trace := [Ev_seek 0 1 (- 1), Ev_seek 0 2 (- 1)]\<rparr>)"
    using d5 p3 c2 by simp
  ultimately show ?thesis using c1 p1 p2 p3 p4 b1 b2 by simp
qed

subsection \<open>Reads that succeed in full\<close>

lemma take_all_or_full:
  "take n xs @ take (n - length (take n xs)) (drop (length (take n xs)) xs) = take n xs"
  by (cases "n \<le> length xs") (simp_all add: min_def)

lemma full_read_plain:
  "read_plan w = [] \<Longrightarrow>
   \<exists>w'. full_read n w = (take n (drop (src_pos w) (src w)), False, w') \<and> read_plan w' = [] \<and>
     src w' = src w \<and> src_pos w' = src_pos w + length (take n (drop (src_pos w) (src w))) \<and>
     out w' = out w \<and> write_plan w' = write_plan w \<and> diag w' = diag w"
proof (induction n w rule: full_read.induct)
  case (1 count w)
  let ?bs = "take count (drop (src_pos w) (src w))"
  let ?w1 = "log (Ev_read (length ?bs)) (w\<lparr>src_pos := src_pos w + length ?bs\<rparr>)"
  have sr: "safe_read count w = (Some ?bs, ?w1)"
    using "1.prems" by (simp add: safe_read_def deliver_def Let_def)
  show ?case
  proof (cases "0 < count")
    case False
    then have "full_read count w = ([], False, w)" by (subst full_read.simps) simp
    with False "1.prems" show ?thesis by simp
  next
    case pos: True
    show ?thesis
    proof (cases "length ?bs = 0")
      case True
      then have e: "?bs = []" by (rule length_0_conv[THEN iffD1])
      have props: "read_plan ?w1 = []" "src ?w1 = src w" "src_pos ?w1 = src_pos w + length ?bs"
        "out ?w1 = out w" "write_plan ?w1 = write_plan w" "diag ?w1 = diag w"
        using "1.prems" by (simp_all add: log_def)
      have "full_read count w = ([], False, ?w1)"
        by (subst full_read.simps) (use pos sr True in \<open>simp only: if_True prod.case option.case e list.size\<close>)
      then have "full_read count w = (?bs, False, ?w1)" by (simp only: e)
      with props show ?thesis by (intro exI[of _ ?w1] conjI)
    next
      case False
      have rp: "read_plan ?w1 = []" using "1.prems" by (simp add: log_def)
      from "1.IH"[OF pos sr[symmetric] refl False rp]
      obtain w' where w': "full_read (count - length ?bs) ?w1 =
          (take (count - length ?bs) (drop (src_pos ?w1) (src ?w1)), False, w')"
        "read_plan w' = []" "src w' = src ?w1"
        "src_pos w' = src_pos ?w1 + length (take (count - length ?bs) (drop (src_pos ?w1) (src ?w1)))"
        "out w' = out ?w1" "write_plan w' = write_plan ?w1" "diag w' = diag ?w1"
        by blast
      have d: "drop (src_pos ?w1) (src ?w1) = drop (length ?bs) (drop (src_pos w) (src w))"
        by (simp add: log_def add.commute)
      have cat: "?bs @ take (count - length ?bs) (drop (src_pos ?w1) (src ?w1)) = ?bs"
        unfolding d by (rule take_all_or_full)
      have len: "length ?bs + length (take (count - length ?bs) (drop (src_pos ?w1) (src ?w1))) = length ?bs"
        using arg_cong[OF cat, of length] by simp
      have "full_read count w = (?bs, False, w')"
        by (subst full_read.simps)
           (use pos sr False w'(1) cat in \<open>simp only: if_True if_False prod.case option.case\<close>)
      moreover have "src_pos w' = src_pos w + length ?bs"
        using w'(4) len by (simp add: log_def)
      moreover have "src w' = src w" "out w' = out w" "write_plan w' = write_plan w" "diag w' = diag w"
        using w'(3,5,6,7) by (simp_all add: log_def)
      ultimately show ?thesis using w'(2) by (intro exI[of _ w'] conjI)
    qed
  qed
qed

subsection \<open>The ring strategy on an input that ends in the last slot but one\<close>

text \<open>
  With \<open>q = n_elide div READ_BUFSIZE\<close>, \<open>s = n_elide mod READ_BUFSIZE\<close> and an input of
  \<open>q * READ_BUFSIZE + r\<close> bytes, the loop ends after \<open>q + 1\<close> reads with
  \<^verbatim>\<open>i + 1 == n_bufs\<close> and \<^verbatim>\<open>buffered_enough\<close> false, so the branch of line 377 runs.
  Its comment says \<^verbatim>\<open>n_elide < file_size\<close>, but nothing tests it: when \<open>r < s\<close> the
  input is shorter than \<open>n_elide\<close>, \<^verbatim>\<open>x = n_read - y\<close> wraps around and line 393
  writes \<open>x\<close> bytes from a block of \<^verbatim>\<open>READ_BUFSIZE\<close> bytes.
\<close>

lemma to_size_t_id: "x \<le> SIZE_MAX c \<Longrightarrow> to_size_t c (int x) = x"
  by (simp add: to_size_t_def)

lemma to_size_t_diff: "y \<le> x \<Longrightarrow> x \<le> SIZE_MAX c \<Longrightarrow> to_size_t c (int x - int y) = x - y"
proof -
  assume a: "y \<le> x" "x \<le> SIZE_MAX c"
  then have "int x - int y = int (x - y)" by simp
  moreover have "x - y \<le> SIZE_MAX c" using a by simp
  ultimately show ?thesis by (simp only: to_size_t_id)
qed

lemma to_size_t_wrap:
  assumes "x < y" "y \<le> SIZE_MAX c"
  shows "to_size_t c (int x - int y) = SIZE_MAX c + 1 - (y - x)"
proof -
  let ?m = "int (SIZE_MAX c) + 1"
  have "(int x - int y) mod ?m = (int x - int y + ?m) mod ?m" by simp
  also have "\<dots> = int x - int y + ?m"
    using assms by (intro mod_pos_pos_trivial) auto
  finally show ?thesis using assms by (simp add: to_size_t_def nat_diff_distrib nat_add_distrib)
qed

lemma ring_remainder_overrun:
  assumes R: "2 * READ_BUFSIZE c \<le> SIZE_MAX c"
    and s: "r < s" "s < READ_BUFSIZE c"
    and b: "i + 1 = length b" "i_next < length b"
      "\<forall>blk. b ! i_next = Some blk \<longrightarrow> length blk = READ_BUFSIZE c"
  shows "fst (ring_remainder c (READ_BUFSIZE c - s) i i_next r b False w) = Undefined_behaviour"
proof -
  let ?R = "READ_BUFSIZE c"
  have y: "to_size_t c (int ?R - int (?R - s)) = s"
    using s R by (subst to_size_t_diff) auto
  have x: "to_size_t c (int r - int s) = SIZE_MAX c + 1 - (s - r)"
    using s R by (intro to_size_t_wrap) auto
  have big: "?R < SIZE_MAX c + 1 - (s - r)" using s R by linarith
  obtain blk where blk: "block_at b i_next = Some blk" "length blk \<le> ?R"
    using b by (cases "b ! i_next") (auto simp: block_at_def)
  have "slice blk 0 (SIZE_MAX c + 1 - (s - r)) = None"
    using blk big by (simp add: slice_def)
  then have "write_block b i_next 0 (SIZE_MAX c + 1 - (s - r)) w = None"
    using blk by (simp add: write_block_def)
  moreover have "READ_BUFSIZE c - s \<noteq> 0" using s by simp
  ultimately show ?thesis using b(1) y x
    by (simp add: ring_remainder_def Let_def)
qed

lemma ring_loop_overrun:
  assumes R: "2 * READ_BUFSIZE c \<le> SIZE_MAX c" and s: "r < s" "s < READ_BUFSIZE c"
  shows "read_plan w = [] \<Longrightarrow> length b = q + 2 \<Longrightarrow> i + k = q \<Longrightarrow>
    remaining w = k * READ_BUFSIZE c + r \<Longrightarrow>
    (\<forall>j<length b. \<forall>blk. b ! j = Some blk \<longrightarrow> length blk = READ_BUFSIZE c) \<Longrightarrow>
    fst (elide_ring_loop c (READ_BUFSIZE c - s) i (i + 1) b False w) = Undefined_behaviour"
proof (induction k arbitrary: i b w)
  case 0
  let ?R = "READ_BUFSIZE c"
  have Rpos: "?R \<noteq> 0" using s by simp
  have i: "i < length b" "i = q" using "0.prems"(2,3) by simp_all
  define w0 where "w0 = (case b ! i of None \<Rightarrow> log (Ev_alloc ?R) w | Some _ \<Rightarrow> w)"
  define blk where "blk = (case b ! i of None \<Rightarrow> xmalloc ?R | Some blk \<Rightarrow> blk)"
  have w0: "read_plan w0 = []" "src w0 = src w" "src_pos w0 = src_pos w"
    using "0.prems"(1) by (auto simp: w0_def log_def split: option.splits)
  have blk: "length blk = ?R"
  proof (cases "b ! i")
    case None
    then show ?thesis by (simp add: blk_def xmalloc_def)
  next
    case (Some x)
    with "0.prems"(5) i(1) have "length x = ?R" by blast
    with Some show ?thesis by (simp add: blk_def)
  qed
  define data where "data = take ?R (drop (src_pos w) (src w))"
  have len: "length data = r" using "0.prems"(4) s by (simp add: data_def remaining_def min_def)
  from full_read_plain[OF w0(1), of ?R] w0 obtain w1 where
    fr: "full_read ?R w0 = (data, False, w1)" by (auto simp: data_def)
  define blk1 where "blk1 = data @ drop (length data) blk"
  have st: "store blk 0 data = Some blk1"
    using blk len s by (simp add: store_def blk1_def)
  have blk1: "length blk1 = ?R" using blk len s by (simp add: blk1_def)
  let ?b1 = "b[i := Some blk1]"
  have b1a: "Suc i + 1 = length ?b1" "0 < length ?b1"
    using "0.prems"(2) i by simp_all
  have b1b: "\<forall>blk. ?b1 ! 0 = Some blk \<longrightarrow> length blk = ?R"
  proof (cases "i = 0")
    case True
    then show ?thesis using i(1) blk1 by simp
  next
    case False
    then have "?b1 ! 0 = b ! 0" by simp
    moreover have "0 < length b" using i(1) by (cases b) simp_all
    ultimately show ?thesis using "0.prems"(5) by metis
  qed
  have rr: "fst (ring_remainder c (?R - s) (Suc i) 0 r ?b1 False w1) = Undefined_behaviour"
    by (rule ring_remainder_overrun[OF R s b1a b1b])
  have md: "Suc (Suc i) mod length b = 0" using "0.prems"(2) i by simp
  have ne: "Suc i \<noteq> length b" using "0.prems"(2) i by simp
  have lt: "r < ?R" using s by simp
  show ?case
    apply (subst elide_ring_loop.simps)
    apply (simp only: Let_def w0_def[symmetric] blk_def[symmetric])
    apply (simp only: Rpos i(1) fr st len lt ne md rr if_False if_True not_True_eq_False
        prod.case option.case simp_thms Suc_eq_plus1[symmetric] add_Suc_right add_0_right)
    done
next
  case (Suc k)
  let ?R = "READ_BUFSIZE c"
  have Rpos: "?R \<noteq> 0" using s by simp
  have i: "i < length b" "i < q" using Suc.prems(2,3) by simp_all
  define w0 where "w0 = (case b ! i of None \<Rightarrow> log (Ev_alloc ?R) w | Some _ \<Rightarrow> w)"
  define blk where "blk = (case b ! i of None \<Rightarrow> xmalloc ?R | Some blk \<Rightarrow> blk)"
  have w0: "read_plan w0 = []" "src w0 = src w" "src_pos w0 = src_pos w"
    using Suc.prems(1) by (auto simp: w0_def log_def split: option.splits)
  have blk: "length blk = ?R"
  proof (cases "b ! i")
    case None
    then show ?thesis by (simp add: blk_def xmalloc_def)
  next
    case (Some x)
    with Suc.prems(5) i(1) have "length x = ?R" by blast
    with Some show ?thesis by (simp add: blk_def)
  qed
  define data where "data = take ?R (drop (src_pos w) (src w))"
  have len: "length data = ?R" using Suc.prems(4) by (simp add: data_def remaining_def min_def)
  from full_read_plain[OF w0(1), of ?R] w0 obtain w1 where
    fr: "full_read ?R w0 = (data, False, w1)" and
    w1: "read_plan w1 = []" "src w1 = src w" "src_pos w1 = src_pos w + length data"
    by (auto simp: data_def)
  define blk1 where "blk1 = data @ drop (length data) blk"
  have st: "store blk 0 data = Some blk1"
    using blk len by (simp add: store_def blk1_def)
  have blk1: "length blk1 = ?R" using blk len by (simp add: blk1_def)
  let ?b1 = "b[i := Some blk1]"
  have rem1: "remaining w1 = k * ?R + r"
    using w1 len Suc.prems(4) by (simp add: remaining_def)
  have inv1: "\<forall>j<length ?b1. \<forall>blk. ?b1 ! j = Some blk \<longrightarrow> length blk = ?R"
  proof (intro allI impI)
    fix j x assume j: "j < length ?b1" and x: "?b1 ! j = Some x"
    show "length x = ?R"
    proof (cases "j = i")
      case True
      with x i(1) have "x = blk1" by simp
      then show ?thesis using blk1 by simp
    next
      case False
      with x have "b ! j = Some x" by simp
      moreover have "j < length b" using j by simp
      ultimately show ?thesis using Suc.prems(5) by metis
    qed
  qed
  have "fst (elide_ring_loop c (?R - s) (Suc i) (Suc i + 1) ?b1 False w1) = Undefined_behaviour"
    by (rule Suc.IH[OF w1(1) _ _ rem1 inv1]) (use Suc.prems(2,3) in simp_all)
  then have ih: "fst (elide_ring_loop c (?R - s) (Suc i) (Suc (Suc i)) ?b1 False w1) = Undefined_behaviour"
    by simp
  have md: "Suc (Suc i) mod length b = Suc (Suc i)" using Suc.prems(2,3) i by simp
  have ne: "Suc i \<noteq> length b" using Suc.prems(2,3) i by simp
  have lt: "\<not> ?R < ?R" by simp
  show ?case
    apply (subst elide_ring_loop.simps)
    apply (simp only: Let_def w0_def[symmetric] blk_def[symmetric])
    apply (simp only: Rpos i(1) fr st len lt ne md ih if_False if_True not_True_eq_False
        prod.case option.case simp_thms Suc_eq_plus1[symmetric] add_Suc_right add_0_right)
    done
qed

lemma div_eq_mod_less: "a div m = n div m \<Longrightarrow> a mod m < n mod m \<Longrightarrow> (a::nat) < n"
  by (metis mult_div_mod_eq nat_add_left_cancel_less)

lemma elide_ring_overrun:
  assumes Rpos: "0 < READ_BUFSIZE c"
    and R: "2 * READ_BUFSIZE c \<le> SIZE_MAX c" and n: "n_elide + READ_BUFSIZE c \<le> SIZE_MAX c"
    and rp: "read_plan w = []"
    and q: "remaining w div READ_BUFSIZE c = n_elide div READ_BUFSIZE c"
    and r: "remaining w mod READ_BUFSIZE c < n_elide mod READ_BUFSIZE c"
  shows "fst (elide_ring c n_elide w) = Undefined_behaviour"
proof -
  let ?R = "READ_BUFSIZE c"
  define s where "s = n_elide mod ?R"
  define q where "q = n_elide div ?R"
  define r where "r = remaining w mod ?R"
  have s: "r < s" "s < ?R" using r Rpos by (simp_all add: s_def r_def)
  have R2: "2 \<le> ?R" using s by simp
  have rem: "ring_rem c n_elide = ?R - s"
    unfolding ring_rem_def s_def[symmetric] using s R by (subst to_size_t_diff) simp_all
  have ndec: "n_elide = q * ?R + s" by (simp add: q_def s_def)
  have round: "ring_n_elide_round c n_elide = (q + 1) * ?R"
  proof -
    have "int n_elide + int (?R - s) = int (n_elide + (?R - s))" by simp
    moreover have "n_elide + (?R - s) \<le> SIZE_MAX c" using n by simp
    ultimately have "ring_n_elide_round c n_elide = n_elide + (?R - s)"
      unfolding ring_n_elide_round_def rem by (simp only: to_size_t_id)
    also have "\<dots> = (q + 1) * ?R" using ndec s by (simp add: algebra_simps)
    finally show ?thesis .
  qed
  have qle: "q + 2 \<le> SIZE_MAX c"
  proof -
    have "q * 1 \<le> q * ?R" using Rpos by (intro mult_le_mono2) simp
    then have "q \<le> n_elide" using ndec by linarith
    then show ?thesis using n R2 by simp
  qed
  have nb: "ring_n_bufs c n_elide = q + 2"
  proof -
    have "(q + 1) * ?R div ?R = q + 1" using Rpos by simp
    then have "int (ring_n_elide_round c n_elide div ?R) + 1 = int (q + 2)"
      unfolding round by simp
    then show ?thesis unfolding ring_n_bufs_def using qle by (simp only: to_size_t_id)
  qed
  let ?w0 = "log (Ev_alloc (q + 2)) w"
  have w0: "read_plan ?w0 = []" using rp by (simp add: log_def)
  have rem0: "remaining ?w0 = q * ?R + r"
    using q by (simp add: q_def r_def) (metis div_mult_mod_eq mult.commute)
  have empty: "\<forall>j<length (replicate (q + 2) (None :: byte list option)).
      \<forall>blk. replicate (q + 2) None ! j = Some blk \<longrightarrow> length blk = ?R"
    by (metis length_replicate nth_replicate option.distinct(1))
  have "fst (elide_ring_loop c (?R - s) 0 (0 + 1) (replicate (q + 2) None) False ?w0) = Undefined_behaviour"
  proof -
    have l: "length (replicate (q + 2) (None :: byte list option)) = q + 2"
      by (simp only: length_replicate)
    have z: "0 + q = q" by simp
    show ?thesis by (rule ring_loop_overrun[OF R s w0 l z rem0 empty])
  qed
  then show ?thesis using Rpos by (simp add: elide_ring_def rem nb Let_def)
qed

lemma elide_small_short_input:
  assumes Rpos: "0 < READ_BUFSIZE c" and n: "2 * (n_elide + READ_BUFSIZE c) \<le> SIZE_MAX c"
    and rp: "read_plan w = []" and short: "remaining w \<le> n_elide"
  shows "fst (elide_small c n_elide w) = Returned 0 \<and> out (snd (elide_small c n_elide w)) = out w"
proof -
  let ?R = "READ_BUFSIZE c"
  let ?n = "?R + n_elide"
  have ntr: "to_size_t c (int ?R + int n_elide) = ?n"
    using n to_size_t_id[of ?n c] by simp
  have sz: "to_size_t c (2 * int ?n) = 2 * ?n"
    using n to_size_t_id[of "2 * ?n" c] by (simp add: add.commute)
  let ?w0 = "log (Ev_alloc (2 * ?n)) w"
  have w0: "read_plan ?w0 = []" "src ?w0 = src w" "src_pos ?w0 = src_pos w" "out ?w0 = out w"
    using rp by (simp_all add: log_def)
  define data where "data = take ?n (drop (src_pos w) (src w))"
  have len: "length data \<le> n_elide" using short by (simp add: data_def remaining_def)
  from full_read_plain[OF w0(1), of ?n] w0 obtain w1 where
    fr: "full_read ?n ?w0 = (data, False, w1)" and w1: "out w1 = out w"
    by (auto simp: data_def)
  have st: "store (xmalloc (2 * ?n)) (0 * ?n) data = Some (data @ drop (length data) (xmalloc (2 * ?n)))"
    using len by (simp add: store_def xmalloc_def)
  have lt: "length data < ?n" "\<not> n_elide < length data" "?n \<noteq> 0" using len Rpos by simp_all
  have "elide_small_loop c n_elide ?n True 0 (xmalloc (2 * ?n)) ?w0 = (Returned 0, w1)"
    apply (subst elide_small_loop.simps)
    apply (simp only: Let_def fr st lt if_False if_True prod.case option.case simp_thms
        small_previous_round_def)
    done
  moreover have "elide_small c n_elide w =
      elide_small_loop c n_elide ?n True 0 (xmalloc (2 * ?n)) ?w0"
    by (simp only: elide_small_def Let_def ntr sz)
  ultimately show ?thesis using w1 by simp
qed

lemma pipe_ring_overrun:
  assumes "0 < READ_BUFSIZE c" "2 * READ_BUFSIZE c \<le> SIZE_MAX c" "SIZE_MAX c \<le> UINTMAX_MAX c"
    and "BYTECOUNT_THRESHOLD c < n_elide" "n_elide + READ_BUFSIZE c \<le> SIZE_MAX c"
    and "read_plan w = []"
    and "remaining w div READ_BUFSIZE c = n_elide div READ_BUFSIZE c"
    and "remaining w mod READ_BUFSIZE c < n_elide mod READ_BUFSIZE c"
  shows "remaining w < n_elide \<and> fst (elide_tail_bytes_pipe c n_elide w) = Undefined_behaviour"
proof -
  let ?R = "READ_BUFSIZE c"
  have less: "remaining w < n_elide" by (rule div_eq_mod_less[OF assms(7,8)])
  have a: "to_size_t c (int n_elide) = n_elide" using assms(5) by (simp add: to_size_t_id)
  have "int n_elide + int ?R = int (n_elide + ?R)" by simp
  moreover have "n_elide + ?R \<le> UINTMAX_MAX c" using assms(3,5) by simp
  ultimately have b: "to_uintmax_t c (int n_elide + int ?R) = n_elide + ?R"
    by (simp add: to_uintmax_t_def)
  have "fst (elide_ring c n_elide w) = Undefined_behaviour"
    by (rule elide_ring_overrun[OF assms(1,2,5,6,7,8)])
  then have "fst (elide_tail_bytes_pipe c n_elide w) = Undefined_behaviour"
    using assms(4,5) by (simp add: elide_tail_bytes_pipe_def a b Let_def)
  with less show ?thesis by simp
qed


text \<open>
  Claim C1 asks that byte elision emit the first \<open>max 0 (L - N)\<close> bytes of every input,
  in the streaming variant as in the seekable one. For every count above the threshold
  and every input whose length \<open>L\<close> has the quotient of the count by
  \<^verbatim>\<open>READ_BUFSIZE\<close> and a smaller remainder (so \<open>L < N\<close>, and nothing is to be
  written), the streaming variant reads outside a block instead of returning 0.
\<close>

theorem elide_tail_bytes_pipe_ring_overrun:
  assumes "0 < READ_BUFSIZE c" "2 * READ_BUFSIZE c \<le> SIZE_MAX c" "SIZE_MAX c \<le> UINTMAX_MAX c"
    and "BYTECOUNT_THRESHOLD c < n_elide" "n_elide + READ_BUFSIZE c \<le> SIZE_MAX c"
    and "read_plan w = []"
    and "remaining w div READ_BUFSIZE c = n_elide div READ_BUFSIZE c"
    and "remaining w mod READ_BUFSIZE c < n_elide mod READ_BUFSIZE c"
  shows "remaining w < n_elide \<and> fst (elide_tail_bytes_pipe c n_elide w) = Undefined_behaviour"
  by (rule pipe_ring_overrun[OF assms])

theorem elide_tail_bytes_pipe_ring_overrun_witness:
  "remaining (pipe (replicate 1048576 (CHR ''a''))) = 1048576
   \<and> BYTECOUNT_THRESHOLD default_config < 1048577
   \<and> fst (elide_tail_bytes_pipe default_config 1048577 (pipe (replicate 1048576 (CHR ''a'')))) =
       Undefined_behaviour"
  using elide_tail_bytes_pipe_ring_overrun[of default_config 1048577 "pipe (replicate 1048576 (CHR ''a''))"]
  by (simp add: example_defs remaining_def)


text \<open>
  Claim C5 asks that the double-buffer and the ring strategy write the same bytes on the
  same input with the same count. On the inputs of the previous theorem the double-buffer
  strategy writes nothing and returns 0, and the ring strategy reads outside a block: with
  the default build, for the count 1048577 (the threshold plus 1) and 1048576 bytes of input.
\<close>

theorem strategies_disagree:
  assumes "0 < READ_BUFSIZE c" "2 * (n_elide + READ_BUFSIZE c) \<le> SIZE_MAX c"
    and "read_plan w = []"
    and "remaining w div READ_BUFSIZE c = n_elide div READ_BUFSIZE c"
    and "remaining w mod READ_BUFSIZE c < n_elide mod READ_BUFSIZE c"
  shows "fst (elide_small c n_elide w) = Returned 0 \<and> out (snd (elide_small c n_elide w)) = out w
     \<and> fst (elide_ring c n_elide w) = Undefined_behaviour"
proof -
  let ?R = "READ_BUFSIZE c"
  have less: "remaining w \<le> n_elide" using div_eq_mod_less[OF assms(4,5)] by simp
  have R: "2 * ?R \<le> SIZE_MAX c" "n_elide + ?R \<le> SIZE_MAX c" using assms(2) by simp_all
  from elide_small_short_input[OF assms(1,2,3) less] elide_ring_overrun[OF assms(1) R assms(3,4,5)]
  show ?thesis by simp
qed


theorem strategies_disagree_witness:
  "fst (elide_small default_config 1048577 (pipe (replicate 1048576 (CHR ''a'')))) = Returned 0
   \<and> out (snd (elide_small default_config 1048577 (pipe (replicate 1048576 (CHR ''a''))))) = []
   \<and> fst (elide_ring default_config 1048577 (pipe (replicate 1048576 (CHR ''a'')))) = Undefined_behaviour"
  using strategies_disagree[of default_config 1048577 "pipe (replicate 1048576 (CHR ''a''))"]
  by (simp add: example_defs remaining_def)


subsection \<open>The boundary counts\<close>

text \<open>
  Claim C3 asks that a count of 0 emit the whole input and that a count of at least the
  number of units emit nothing, both with success. Through the dispatchers, with the
  default build: for the count 0 the regular file \<open>abc\<close> gives no output and the pipe
  \<open>abc\<close> ends in an access outside the buffer; for the count 1048577 a pipe of 1048576
  bytes ends in an access outside a block.
\<close>

theorem boundary_counts_fail:
  "fst (elide_tail_lines_file default_config 0 (regular_file ''abc'' 0)) = Returned 0
   \<and> out (snd (elide_tail_lines_file default_config 0 (regular_file ''abc'' 0))) = []
   \<and> fst (elide_tail_lines_file default_config 0 (pipe ''abc'')) = Undefined_behaviour
   \<and> length (replicate 1048576 (CHR ''a'')) \<le> 1048577
   \<and> fst (elide_tail_bytes_file default_config 1048577 (pipe (replicate 1048576 (CHR ''a'')))) =
       Undefined_behaviour"
proof -
  have "fst (elide_tail_bytes_pipe default_config 1048577 (pipe (replicate 1048576 (CHR ''a'')))) =
      Undefined_behaviour"
    using pipe_ring_overrun[of default_config 1048577 "pipe (replicate 1048576 (CHR ''a''))"]
    by (simp add: example_defs remaining_def)
  then have "fst (elide_tail_bytes_file default_config 1048577 (pipe (replicate 1048576 (CHR ''a'')))) =
      Undefined_behaviour"
    by (simp add: elide_tail_bytes_file_def pipe_def)
  moreover have "fst (elide_tail_lines_file default_config 0 (regular_file ''abc'' 0)) = Returned 0
   \<and> out (snd (elide_tail_lines_file default_config 0 (regular_file ''abc'' 0))) = []
   \<and> fst (elide_tail_lines_file default_config 0 (pipe ''abc'')) = Undefined_behaviour"
    by (simp add: env_defs example_defs lines_simps)
  ultimately show ?thesis by simp
qed

theorem boundary_counts_fail_witness:
  "out (snd (elide_tail_lines_file default_config 0 (regular_file ''abc'' 0))) \<noteq> ''abc''
   \<and> fst (elide_tail_lines_file default_config 0 (pipe ''abc'')) \<noteq> Returned 0
   \<and> fst (elide_tail_bytes_file default_config 1048577 (pipe (replicate 1048576 (CHR ''a'')))) \<noteq>
       Returned 0"
  using boundary_counts_fail by simp

subsection \<open>Writes that fail\<close>

lemma silent_refl: "silent w w"
  by (simp add: silent_def)

lemma silent_reported: "silent w0 w' \<Longrightarrow> reported w0 e w'"
  unfolding silent_def reported_def
  by (metis in_set_butlastD)

lemma silent_log: "silent w0 w \<Longrightarrow> \<not> checked_failure ev \<Longrightarrow> silent w0 (log ev w)"
  unfolding silent_def by (auto simp: log_def)

lemma silent_error: "silent w0 w \<Longrightarrow> silent w0 (error d w)"
  unfolding silent_def by (auto simp: error_def)

lemma silent_safe_read: "safe_read n w = (r, w1) \<Longrightarrow> silent w0 w \<Longrightarrow> silent w0 w1"
  unfolding silent_def
  by (cases r) (auto dest!: safe_read_None safe_read_Some)

lemma silent_lseek: "lseek off wh w = (r, w1) \<Longrightarrow> silent w0 w \<Longrightarrow> silent w0 w1"
  unfolding silent_def
  by (auto simp: lseek_def Let_def log_def split: if_splits option.splits)

lemma silent_fwrite_full:
  "fwrite s bs w = (k, w1) \<Longrightarrow> silent w0 w \<Longrightarrow> \<not> k < length bs \<Longrightarrow> silent w0 w1"
  unfolding silent_def by (auto dest!: fwrite_effect)

lemma silent_fwrite_unchecked:
  "\<not> checked_site s \<Longrightarrow> silent w0 w \<Longrightarrow> silent w0 (snd (fwrite s bs w))"
  unfolding silent_def by (cases "fwrite s bs w") (auto dest!: fwrite_effect)

lemma reported_fwrite_short:
  assumes "fwrite s bs w = (k, w1)" "silent w0 w" "k < length bs"
    and "d = Error_writing \<or> d = Write_error"
  shows "reported w0 (Returned 1) (error d w1)"
proof -
  from assms(2) obtain evs bs0 ds where
    w: "trace w = trace w0 @ evs" "\<forall>e\<in>set evs. \<not> checked_failure e"
       "out w = out w0 @ bs0" "diag w = diag w0 @ ds"
    unfolding silent_def by blast
  note f = fwrite_effect[OF assms(1)]
  have t: "trace (error d w1) = trace w0 @ (evs @ [Ev_write s (length bs) k])"
    using f w by (simp add: error_def)
  have o: "out (error d w1) = out w0 @ (bs0 @ take k bs)"
    using f w by (simp add: error_def)
  have dg: "diag (error d w1) = diag w0 @ ds @ [d]"
    using f w by (simp add: error_def)
  show ?thesis
    unfolding reported_def
    apply (intro conjI)
     apply (rule exI[of _ "evs @ [Ev_write s (length bs) k]"])
     apply (intro conjI)
       apply (rule t)
      apply (simp add: w(2))
     apply (use dg assms(4) in blast)
    apply (rule exI[of _ "bs0 @ take k bs"])
    apply (rule o)
    done
qed

lemma silent_full_read: "full_read n w = (d, f, w1) \<Longrightarrow> silent w0 w \<Longrightarrow> silent w0 w1"
proof (induction n w arbitrary: d f w1 rule: full_read.induct)
  case (1 count w)
  show ?case
  proof (cases "0 < count")
    case False
    with "1.prems" show ?thesis by (simp add: full_read.simps[of count w])
  next
    case pos: True
    obtain r v where r: "safe_read count w = (r, v)" by force
    note sv = silent_safe_read[OF r "1.prems"(2)]
    show ?thesis
    proof (cases r)
      case None
      with r pos "1.prems"(1) sv show ?thesis by (simp add: full_read.simps[of count w])
    next
      case (Some bs)
      show ?thesis
      proof (cases "length bs = 0")
        case True
        with Some r pos "1.prems"(1) sv show ?thesis by (simp add: full_read.simps[of count w])
      next
        case False
        obtain rest f' w2 where rec: "full_read (count - length bs) v = (rest, f', w2)"
          by (metis prod_cases3)
        from "1.IH"[OF pos r[unfolded Some, symmetric] refl False rec sv] have "silent w0 w2" .
        moreover from Some r pos False rec "1.prems"(1) have "w1 = w2"
          by (simp add: full_read.simps[of count w])
        ultimately show ?thesis by simp
      qed
    qed
  qed
qed

lemma copy_fd_reported:
  "copy_fd c n w = (st, w') \<Longrightarrow> silent w0 w \<Longrightarrow>
     (st = COPY_FD_WRITE_ERROR \<longrightarrow> reported w0 (Returned 1) (error Error_writing w')) \<and>
     (st \<noteq> COPY_FD_WRITE_ERROR \<longrightarrow> silent w0 w')"
proof (induction c n w arbitrary: st w' rule: copy_fd.induct)
  case (1 c n_bytes w)
  show ?case
  proof (cases "0 < n_bytes")
    case False
    with "1.prems" show ?thesis by (simp add: copy_fd.simps[of c n_bytes w])
  next
    case pos: True
    obtain r w1 where r: "safe_read (min (BUFSIZ c) n_bytes) w = (r, w1)" by force
    note s1 = silent_safe_read[OF r "1.prems"(2)]
    show ?thesis
    proof (cases r)
      case None
      with r pos "1.prems"(1) s1 show ?thesis by (simp add: copy_fd.simps[of c n_bytes w])
    next
      case (Some buf)
      show ?thesis
      proof (cases "length buf = 0 \<and> n_bytes - length buf \<noteq> 0")
        case True
        with Some r pos "1.prems"(1) s1 show ?thesis
          by (simp add: copy_fd.simps[of c n_bytes w])
      next
        case noeof: False
        obtain k w2 where wr: "fwrite Site_copy_fd buf w1 = (k, w2)" by force
        show ?thesis
        proof (cases "k < length buf")
          case True
          from reported_fwrite_short[OF wr s1 True, of Error_writing]
          have "reported w0 (Returned 1) (error Error_writing w2)" by simp
          moreover from Some r pos noeof wr True "1.prems"(1)
          have "st = COPY_FD_WRITE_ERROR" "w' = w2"
            by (simp_all add: copy_fd.simps[of c n_bytes w])
          ultimately show ?thesis by simp
        next
          case False
          note s2 = silent_fwrite_full[OF wr s1 False]
          from Some r pos noeof wr False "1.prems"(1)
          have rec: "copy_fd c (n_bytes - length buf) w2 = (st, w')"
            by (simp add: copy_fd.simps[of c n_bytes w])
          from "1.IH"[OF pos refl r[unfolded Some, symmetric] refl refl refl _ wr[symmetric] False rec s2]
            noeof
          show ?thesis by simp
        qed
      qed
    qed
  qed
qed

lemma slice_length: "slice buf off n = Some bs \<Longrightarrow> length bs = n"
  by (auto simp: slice_def split: if_splits)

lemma silent_small_previous_round:
  "small_previous_round c n_elide n_to_read first i b delta w = Some w2 \<Longrightarrow> silent w0 w \<Longrightarrow>
     silent w0 w2"
  by (auto simp: small_previous_round_def split: if_splits intro: silent_fwrite_unchecked)

lemma elide_small_loop_reported:
  "elide_small_loop c n_elide n_to_read first i b w = (e, w') \<Longrightarrow> silent w0 w \<Longrightarrow>
     reported w0 e w'"
proof (induction c n_elide n_to_read first i b w arbitrary: e w' rule: elide_small_loop.induct)
  case (1 c n_elide n_to_read first i b w)
  note eq = "1.prems"(1)[unfolded elide_small_loop.simps[of c n_elide n_to_read first i b w]]
  show ?case
  proof (cases "n_to_read = 0")
    case True
    with eq "1.prems"(2) show ?thesis by (auto intro: silent_reported)
  next
    case ne: False
    obtain data failed w1 where fr: "full_read n_to_read w = (data, failed, w1)"
      by (metis prod_cases3)
    note s1 = silent_full_read[OF fr "1.prems"(2)]
    show ?thesis
    proof (cases "store b (i * n_to_read) data")
      case None
      with eq ne fr s1 show ?thesis by (auto intro: silent_reported)
    next
      case (Some b1)
      show ?thesis
      proof (cases "length data < n_to_read \<and> failed")
        case True
        with eq ne fr Some s1 show ?thesis
          by (auto intro: silent_reported silent_error)
      next
        case nofail: False
        show ?thesis
        proof (cases "small_previous_round c n_elide n_to_read first i b1
                            (small_delta n_elide n_to_read (length data) first) w1")
          case None
          with eq ne fr Some nofail s1 show ?thesis
            by (auto intro: silent_reported)
        next
          case tl: (Some w2)
          note s2 = silent_small_previous_round[OF tl s1]
          show ?thesis
          proof (cases "n_elide < length data")
            case False
            show ?thesis
            proof (cases "length data < n_to_read")
              case True
              with eq ne fr Some nofail tl False s2 show ?thesis
                by (auto intro: silent_reported)
            next
              case neof: False
              with eq ne fr Some nofail tl False
              have rec: "elide_small_loop c n_elide n_to_read False (c_not i) b1 w2 = (e, w')"
                by auto
              show ?thesis
                by (rule "1.IH"(2)[OF ne fr[symmetric] refl Some nofail tl False neof rec s2])
            qed
          next
            case gt: True
            show ?thesis
            proof (cases "slice b1 (i * n_to_read) (length data - n_elide)")
              case None
              with eq ne fr Some nofail tl gt s2 show ?thesis
                by (auto intro: silent_reported)
            next
              case sl: (Some bs)
              obtain k w3 where wr: "fwrite Site_small_prefix bs w2 = (k, w3)" by force
              note lb = slice_length[OF sl]
              show ?thesis
              proof (cases "k < length data - n_elide")
                case True
                then have "k < length bs" using lb by simp
                from reported_fwrite_short[OF wr s2 this, of Write_error]
                have "reported w0 (Returned 1) (error Write_error w3)" by simp
                with eq ne fr Some nofail tl gt sl wr True show ?thesis
                  by auto
              next
                case full: False
                then have "\<not> k < length bs" using lb by simp
                note s3 = silent_fwrite_full[OF wr s2 this]
                show ?thesis
                proof (cases "length data < n_to_read")
                  case True
                  with eq ne fr Some nofail tl gt sl wr full s3 show ?thesis
                    by (auto intro: silent_reported)
                next
                  case neof: False
                  with eq ne fr Some nofail tl gt sl wr full
                  have rec: "elide_small_loop c n_elide n_to_read False (c_not i) b1 w3 = (e, w')"
                    by auto
                  show ?thesis
                    by (rule "1.IH"(1)[OF ne fr[symmetric] refl Some nofail tl gt sl
                          wr[symmetric] full neof rec s3])
                qed
              qed
            qed
          qed
        qed
      qed
    qed
  qed
qed

lemma elide_small_reported:
  "elide_small c n_elide w = (e, w') \<Longrightarrow> silent w0 w \<Longrightarrow> reported w0 e w'"
  unfolding elide_small_def Let_def
  by (erule elide_small_loop_reported) (auto intro: silent_log)

lemma silent_write_block:
  "write_block b j off n w = Some w1 \<Longrightarrow> silent w0 w \<Longrightarrow> silent w0 w1"
  by (auto simp: write_block_def split: option.splits intro: silent_fwrite_unchecked)

lemma ring_remainder_reported:
  "ring_remainder c rem i i_next n_read b enough w = (e, w') \<Longrightarrow> silent w0 w \<Longrightarrow> reported w0 e w'"
  by (auto simp: ring_remainder_def Let_def split: if_splits option.splits
           intro!: silent_reported dest: silent_write_block)

lemma elide_ring_loop_reported:
  "elide_ring_loop c rem i i_next b enough w = (e, w') \<Longrightarrow> silent w0 w \<Longrightarrow> reported w0 e w'"
proof (induction c rem i i_next b enough w arbitrary: e w' rule: elide_ring_loop.induct)
  case (1 c rem i i_next b buffered_enough w)
  define wa where "wa = (case b ! i of None \<Rightarrow> log (Ev_alloc (READ_BUFSIZE c)) w | Some _ \<Rightarrow> w)"
  define blk where "blk = (case b ! i of None \<Rightarrow> xmalloc (READ_BUFSIZE c) | Some blk \<Rightarrow> blk)"
  note eq = "1.prems"(1)[unfolded elide_ring_loop.simps[of c rem i i_next b buffered_enough w],
      unfolded Let_def, folded wa_def blk_def]
  have sa: "silent w0 wa"
    unfolding wa_def using "1.prems"(2) by (auto split: option.splits intro: silent_log)
  show ?case
  proof (cases "READ_BUFSIZE c = 0")
    case True
    with eq "1.prems"(2) show ?thesis by (auto intro: silent_reported)
  next
    case ne: False
    show ?thesis
    proof (cases "i < length b")
      case False
      with eq ne "1.prems"(2) show ?thesis by (auto intro: silent_reported)
    next
      case inb: True
      then have nn: "\<not> \<not> i < length b" by simp
      obtain data failed w1 where fr: "full_read (READ_BUFSIZE c) wa = (data, failed, w1)"
        by (metis prod_cases3)
      note s1 = silent_full_read[OF fr sa]
      show ?thesis
      proof (cases "store blk 0 data")
        case None
        with eq ne inb fr s1 show ?thesis by (auto intro: silent_reported)
      next
        case st: (Some blk1)
        show ?thesis
        proof (cases "length data < READ_BUFSIZE c \<and> failed")
          case True
          with eq ne inb fr st s1 show ?thesis by (auto intro: silent_reported silent_error)
        next
          case nofail: False
          show ?thesis
          proof (cases "buffered_enough \<or> i + 1 = length b")
            case ngh: False
            show ?thesis
            proof (cases "length data < READ_BUFSIZE c")
              case True
              with eq ne inb fr st nofail ngh
              have "ring_remainder c rem i_next ((i_next + 1) mod length b) (length data)
                      (b[i := Some blk1]) (buffered_enough \<or> i + 1 = length b) w1 = (e, w')"
                by auto
              from ring_remainder_reported[OF this s1] show ?thesis .
            next
              case neof: False
              with eq ne inb fr st nofail ngh
              have rec: "elide_ring_loop c rem i_next ((i_next + 1) mod length b)
                      (b[i := Some blk1]) (buffered_enough \<or> i + 1 = length b) w1 = (e, w')"
                by auto
              show ?thesis
                by (rule "1.IH"(2)[OF ne nn wa_def blk_def fr[symmetric] refl refl st refl nofail
                      refl refl refl refl ngh neof rec s1])
            qed
          next
            case gh: True
            show ?thesis
            proof (cases "block_at (b[i := Some blk1]) i_next")
              case None
              with eq ne inb fr st nofail gh s1 show ?thesis by (auto intro: silent_reported)
            next
              case ba: (Some old)
              show ?thesis
              proof (cases "slice old 0 (length data)")
                case None
                with eq ne inb fr st nofail gh ba s1 show ?thesis by (auto intro: silent_reported)
              next
                case sl: (Some bs)
                note lb = slice_length[OF sl]
                obtain k w2 where wr: "fwrite Site_ring_loop bs w1 = (k, w2)" by force
                show ?thesis
                proof (cases "k < length data")
                  case True
                  then have "k < length bs" using lb by simp
                  from reported_fwrite_short[OF wr s1 this, of Write_error]
                  have "reported w0 (Returned 1) (error Write_error w2)" by simp
                  with eq ne inb fr st nofail gh ba sl wr True show ?thesis by auto
                next
                  case full: False
                  then have "\<not> k < length bs" using lb by simp
                  note s2 = silent_fwrite_full[OF wr s1 this]
                  show ?thesis
                  proof (cases "length data < READ_BUFSIZE c")
                    case True
                    with eq ne inb fr st nofail gh ba sl wr full
                    have "ring_remainder c rem i_next ((i_next + 1) mod length b) (length data)
                            (b[i := Some blk1]) (buffered_enough \<or> i + 1 = length b) w2 = (e, w')"
                      by auto
                    from ring_remainder_reported[OF this s2] show ?thesis .
                  next
                    case neof: False
                    with eq ne inb fr st nofail gh ba sl wr full
                    have rec: "elide_ring_loop c rem i_next ((i_next + 1) mod length b)
                            (b[i := Some blk1]) (buffered_enough \<or> i + 1 = length b) w2 = (e, w')"
                      by auto
                    show ?thesis
                      by (rule "1.IH"(1)[OF ne nn wa_def blk_def fr[symmetric] refl refl st refl
                            nofail refl refl refl refl gh ba sl wr[symmetric] full neof rec s2])
                  qed
                qed
              qed
            qed
          qed
        qed
      qed
    qed
  qed
qed

lemma elide_ring_reported:
  "elide_ring c n_elide w = (e, w') \<Longrightarrow> silent w0 w \<Longrightarrow> reported w0 e w'"
  unfolding elide_ring_def Let_def
  by (auto split: if_splits intro: silent_reported silent_log elim!: elide_ring_loop_reported)

lemma elide_tail_bytes_pipe_reported:
  "elide_tail_bytes_pipe c n_elide w = (e, w') \<Longrightarrow> silent w0 w \<Longrightarrow> reported w0 e w'"
  unfolding elide_tail_bytes_pipe_def Let_def
  by (auto split: if_splits intro: silent_reported silent_error
        elim: elide_ring_reported elide_small_reported)

lemma silent_diagnose_copy_fd_failure:
  "diagnose_copy_fd_failure st w = Some w1 \<Longrightarrow> silent w0 w \<Longrightarrow> silent w0 w1"
  by (cases st) (auto simp: diagnose_copy_fd_failure_def intro: silent_error)

lemma diagnose_copy_fd_write_error:
  "diagnose_copy_fd_failure COPY_FD_WRITE_ERROR w = Some (error Error_writing w)"
  by (simp add: diagnose_copy_fd_failure_def)

lemma copy_fd_then_diagnose:
  assumes "copy_fd c n w = (st, w1)" "silent w0 w" "st \<noteq> COPY_FD_OK"
    and "(case diagnose_copy_fd_failure st w1 of None \<Rightarrow> (Aborted, w1)
          | Some w2 \<Rightarrow> (Returned 1, w2)) = (e, w')"
  shows "reported w0 e w'"
proof (cases "st = COPY_FD_WRITE_ERROR")
  case True
  with copy_fd_reported[OF assms(1,2)] have "reported w0 (Returned 1) (error Error_writing w1)"
    by simp
  with assms(4) True show ?thesis by (simp add: diagnose_copy_fd_write_error)
next
  case False
  with copy_fd_reported[OF assms(1,2)] have s: "silent w0 w1" by simp
  show ?thesis
  proof (cases "diagnose_copy_fd_failure st w1")
    case None
    with assms(4) s show ?thesis by (auto intro: silent_reported)
  next
    case (Some w2)
    from silent_diagnose_copy_fd_failure[OF Some s] assms(4) Some show ?thesis
      by (auto intro: silent_reported)
  qed
qed

lemma copy_fd_ok_silent:
  "copy_fd c n w = (COPY_FD_OK, w1) \<Longrightarrow> silent w0 w \<Longrightarrow> silent w0 w1"
  using copy_fd_reported[of c n w COPY_FD_OK w1 w0] by simp

lemma elide_tail_bytes_file_reported:
  assumes "elide_tail_bytes_file c n_elide w = (e, w')" "silent w0 w"
  shows "reported w0 e w'"
proof (cases "presume_input_pipe c \<or> \<not> src_fstat_ok w \<or> \<not> src_is_reg w")
  case True
  with assms(1) have "elide_tail_bytes_pipe c n_elide w = (e, w')"
    by (simp add: elide_tail_bytes_file_def)
  from elide_tail_bytes_pipe_reported[OF this assms(2)] show ?thesis .
next
  case reg: False
  obtain cur w1 where l1: "lseek 0 SEEK_CUR w = (cur, w1)" by force
  obtain ep w2 where l2: "lseek 0 SEEK_END w1 = (ep, w2)" by force
  obtain r w3 where l3: "lseek 0 (to_int c cur) w2 = (r, w3)" by force
  define br where "br = (if ep - cur < 0 then 0 else nat (ep - cur))"
  obtain st w4 where cp: "copy_fd c (br - n_elide) w3 = (st, w4)" by force
  note s1 = silent_lseek[OF l1 assms(2)]
  note s2 = silent_lseek[OF l2 s1]
  note s3 = silent_lseek[OF l3 s2]
  note eq = assms(1)[unfolded elide_tail_bytes_file_def Let_def]
  show ?thesis
  proof (cases "cur = - 1 \<or> ep = - 1 \<or> br \<le> n_elide \<or> r = - 1")
    case True
    with eq reg l1 l2 l3 s1 s2 s3 show ?thesis
      by (auto simp: br_def split: if_splits intro: silent_reported silent_error)
  next
    case False
    show ?thesis
    proof (cases "st = COPY_FD_OK")
      case True
      with eq reg l1 l2 l3 cp False have "w' = w4" "e = Returned 0"
        by (auto simp: br_def split: if_splits)
      with copy_fd_ok_silent[OF cp[unfolded True] s3] show ?thesis
        by (auto intro: silent_reported)
    next
      case bad: False
      with eq reg l1 l2 l3 cp False
      have "(case diagnose_copy_fd_failure st w4 of None \<Rightarrow> (Aborted, w4)
          | Some w5 \<Rightarrow> (Returned 1, w5)) = (e, w')"
        by (auto simp: br_def split: if_splits)
      from copy_fd_then_diagnose[OF cp s3 bad this] show ?thesis .
    qed
  qed
qed

lemma lines_pipe_fill_silent:
  "lines_pipe_fill c n_elide front lst total' w = (f, l, t, rf, w') \<Longrightarrow> silent w0 w \<Longrightarrow>
     silent w0 w'"
proof (induction c n_elide front lst total' w arbitrary: f l t rf w' rule: lines_pipe_fill.induct)
  case (1 c n_elide front lst total_lines w)
  obtain r w1 where sr: "safe_read (BUFSIZ c) w = (r, w1)" by force
  note s1 = silent_safe_read[OF sr "1.prems"(2)]
  note eq = "1.prems"(1)[unfolded lines_pipe_fill.simps[of c n_elide front lst total_lines w]]
  show ?case
  proof (cases r)
    case None
    with eq sr s1 show ?thesis by simp
  next
    case (Some data)
    define tmp where "tmp = \<lparr>lb_buffer = data, lb_nlines = count_newlines data\<rparr>"
    define tot where "tot = total_lines + lb_nlines tmp"
    note eq2 = eq[unfolded sr Some Let_def, simplified, folded tmp_def, folded tot_def]
    show ?thesis
    proof (cases "length data = 0")
      case True
      with eq sr Some s1 show ?thesis by simp
    next
      case ne: False
      show ?thesis
      proof (cases "length (lb_buffer tmp) + length (lb_buffer lst) < BUFSIZ c")
        case True
        with eq sr Some ne
        have rec: "lines_pipe_fill c n_elide front
                    (lst\<lparr>lb_buffer := lb_buffer lst @ lb_buffer tmp,
                         lb_nlines := lb_nlines lst + lb_nlines tmp\<rparr>) tot w1 = (f, l, t, rf, w')"
          by (simp add: Let_def tmp_def tot_def)
        show ?thesis
          by (rule "1.IH"(1)[OF sr[symmetric] Some ne tmp_def tot_def True rec s1])
      next
        case big: False
        define fst' where "fst' = hd (front @ [lst])"
        show ?thesis
        proof (cases "n_elide < tot - lb_nlines fst'")
          case True
          obtain k w2 where wr: "fwrite Site_lines_pipe (lb_buffer fst') w1 = (k, w2)" by force
          have s2: "silent w0 w2"
            using silent_fwrite_unchecked[of Site_lines_pipe w0 w1 "lb_buffer fst'"] s1 wr by simp
          from eq sr Some ne big True wr
          have rec: "lines_pipe_fill c n_elide (tl (front @ [lst])) tmp (tot - lb_nlines fst') w2
                       = (f, l, t, rf, w')"
            by (simp add: Let_def tmp_def tot_def fst'_def)
          show ?thesis
            by (rule "1.IH"(2)[OF sr[symmetric] Some ne tmp_def tot_def big fst'_def True
                  wr[symmetric] rec s2])
        next
          case False
          with eq sr Some ne big
          have rec: "lines_pipe_fill c n_elide (front @ [lst]) tmp tot w1 = (f, l, t, rf, w')"
            by (simp add: Let_def tmp_def tot_def fst'_def)
          show ?thesis
            by (rule "1.IH"(3)[OF sr[symmetric] Some ne tmp_def tot_def big fst'_def False rec s1])
        qed
      qed
    qed
  qed
qed

lemma lines_pipe_flush_silent:
  "lines_pipe_flush n_elide bufs t w = (r, t', w') \<Longrightarrow> silent w0 w \<Longrightarrow> silent w0 w'"
proof (induction bufs arbitrary: t w)
  case Nil
  then show ?case by simp
next
  case (Cons tmp rest)
  show ?case
  proof (cases "n_elide < t - lb_nlines tmp")
    case True
    have "silent w0 (snd (fwrite Site_lines_pipe (lb_buffer tmp) w))"
      using Cons.prems(2) by (intro silent_fwrite_unchecked) simp_all
    with Cons.IH[of "t - lb_nlines tmp" "snd (fwrite Site_lines_pipe (lb_buffer tmp) w)"]
      Cons.prems(1) True show ?thesis by simp
  next
    case False
    with Cons.prems show ?thesis by simp
  qed
qed

lemma elide_tail_lines_pipe_reported:
  assumes "elide_tail_lines_pipe c n_elide w = (e, w')" "silent w0 w"
  shows "reported w0 e w'"
proof -
  obtain front lst tl rf w1 where
    fill: "lines_pipe_fill c n_elide [] \<lparr>lb_buffer = [], lb_nlines = 0\<rparr> 0 w = (front, lst, tl, rf, w1)"
    by (metis prod_cases5)
  note s1 = lines_pipe_fill_silent[OF fill assms(2)]
  define inc where "inc = (lb_buffer lst \<noteq> [] \<and> last (lb_buffer lst) \<noteq> NL)"
  define lst' where "lst' = (if inc then lst\<lparr>lb_nlines := lb_nlines lst + 1\<rparr> else lst)"
  define tl' where "tl' = (if inc then tl + 1 else tl)"
  obtain r t2 w2 where fl: "lines_pipe_flush n_elide (front @ [lst']) tl' w1 = (r, t2, w2)"
    by (metis prod_cases3)
  note s2 = lines_pipe_flush_silent[OF fl s1]
  note eq = assms(1)[unfolded elide_tail_lines_pipe_def fill Let_def prod.case,
      folded inc_def, folded lst'_def tl'_def, unfolded fl prod.case]
  have "silent w0 w'"
  proof (cases rf)
    case True
    with eq s1 show ?thesis by (auto intro: silent_error)
  next
    case False
    with eq s2 show ?thesis
      by (auto split: option.splits if_splits intro: silent_fwrite_unchecked)
  qed
  then show ?thesis by (rule silent_reported)
qed

lemma lines_seekable_loop_reported:
  "lines_seekable_loop c start_pos pos buffer n_lines w = (e, w') \<Longrightarrow> silent w0 w \<Longrightarrow>
     reported w0 e w'"
proof (induction c start_pos pos buffer n_lines w arbitrary: e w'
    rule: lines_seekable_loop.induct)
  case (1 c start_pos pos buffer n_lines w)
  obtain found n_left where sb: "scan_back c buffer (length buffer) n_lines = (found, n_left)"
    by force
  note eq = "1.prems"(1)[unfolded lines_seekable_loop.simps[of c start_pos pos buffer n_lines w]
      sb prod.case]
  show ?case
  proof (cases found)
    case (Some n)
    show ?thesis
    proof (cases "start_pos < pos")
      case False
      with eq Some "1.prems"(2) show ?thesis
        by (auto split: option.splits intro!: silent_reported intro: silent_fwrite_unchecked)
    next
      case True
      obtain r w1 where ls: "lseek start_pos SEEK_SET w = (r, w1)" by force
      note s1 = silent_lseek[OF ls "1.prems"(2)]
      obtain st w2 where cp: "copy_fd c (nat (pos - start_pos)) w1 = (st, w2)" by force
      show ?thesis
      proof (cases "r < 0")
        case True
        with eq Some \<open>start_pos < pos\<close> ls s1 show ?thesis
          by (auto intro: silent_reported silent_error)
      next
        case rok: False
        show ?thesis
        proof (cases "st = COPY_FD_OK")
          case True
          note s2 = copy_fd_ok_silent[OF cp[unfolded True] s1]
          from eq Some \<open>start_pos < pos\<close> ls rok cp True s2 show ?thesis
            by (auto split: option.splits intro!: silent_reported intro: silent_fwrite_unchecked)
        next
          case bad: False
          with eq Some \<open>start_pos < pos\<close> ls rok cp
          have "(case diagnose_copy_fd_failure st w2 of None \<Rightarrow> (Aborted, w2)
              | Some w3 \<Rightarrow> (Returned 1, w3)) = (e, w')" by auto
          from copy_fd_then_diagnose[OF cp s1 bad this] show ?thesis .
        qed
      qed
    qed
  next
    case None
    show ?thesis
    proof (cases "pos = start_pos")
      case True
      with eq None "1.prems"(2) show ?thesis by (auto intro: silent_reported)
    next
      case ne: False
      define pos' where "pos' = pos - int (BUFSIZ c)"
      obtain r w1 where ls: "lseek pos' SEEK_SET w = (r, w1)" by force
      note s1 = silent_lseek[OF ls "1.prems"(2)]
      obtain rd w2 where sr: "safe_read (BUFSIZ c) w1 = (rd, w2)" by force
      note s2 = silent_safe_read[OF sr s1]
      note eq2 = eq[unfolded None Let_def, folded pos'_def]
      show ?thesis
      proof (cases "r < 0")
        case True
        with eq2 ne ls s1 show ?thesis by (auto intro: silent_reported silent_error)
      next
        case rok: False
        show ?thesis
        proof (cases rd)
          case None
          with eq2 ne ls rok sr s2 show ?thesis by (auto intro: silent_reported silent_error)
        next
          case rdS: (Some data)
          show ?thesis
          proof (cases "length data = 0")
            case True
            with eq2 ne ls rok sr rdS s2 show ?thesis by (auto intro: silent_reported)
          next
            case nonempty: False
            with eq2 ne ls rok sr rdS
            have rec: "lines_seekable_loop c start_pos pos' data n_left w2 = (e, w')" by auto
            show ?thesis
              by (rule "1.IH"[OF sb[symmetric] None ne pos'_def ls[symmetric] rok
                    sr[symmetric] rdS nonempty rec s2])
          qed
        qed
      qed
    qed
  qed
qed

lemma elide_tail_lines_seekable_reported:
  assumes "elide_tail_lines_seekable c n start_pos end_pos w = (e, w')" "silent w0 w"
  shows "reported w0 e w'"
proof (cases "BUFSIZ c = 0")
  case True
  with assms show ?thesis by (auto simp: elide_tail_lines_seekable_def intro: silent_reported)
next
  case ne: False
  define r0 where "r0 = to_size_t c (c_rem (end_pos - start_pos) (int (BUFSIZ c)))"
  define br where "br = (if r0 = 0 then BUFSIZ c else r0)"
  define pos where "pos = end_pos - int br"
  obtain r w1 where ls: "lseek pos SEEK_SET w = (r, w1)" by force
  note s1 = silent_lseek[OF ls assms(2)]
  obtain rd w2 where sr: "safe_read br w1 = (rd, w2)" by force
  note s2 = silent_safe_read[OF sr s1]
  note eq = assms(1)[unfolded elide_tail_lines_seekable_def Let_def, folded r0_def,
      folded br_def, folded pos_def]
  show ?thesis
  proof (cases "r < 0")
    case True
    with eq ne ls s1 show ?thesis by (auto intro: silent_reported silent_error)
  next
    case rok: False
    show ?thesis
    proof (cases rd)
      case None
      with eq ne ls rok sr s2 show ?thesis by (auto intro: silent_reported silent_error)
    next
      case (Some buffer)
      with eq ne ls rok sr
      have "lines_seekable_loop c start_pos pos buffer
              (if buffer \<noteq> [] \<and> last buffer \<noteq> NL then to_uintmax_t c (int n - 1) else n) w2
            = (e, w')" by auto
      from lines_seekable_loop_reported[OF this s2] show ?thesis .
    qed
  qed
qed

lemma elide_tail_lines_file_reported:
  assumes "elide_tail_lines_file c n w = (e, w')" "silent w0 w"
  shows "reported w0 e w'"
proof (cases "presume_input_pipe c")
  case True
  with assms(1) have "elide_tail_lines_pipe c n w = (e, w')"
    by (simp add: elide_tail_lines_file_def)
  from elide_tail_lines_pipe_reported[OF this assms(2)] show ?thesis .
next
  case False
  obtain sp w1 where l1: "lseek 0 SEEK_CUR w = (sp, w1)" by force
  obtain ep w2 where l2: "lseek 0 SEEK_END w1 = (ep, w2)" by force
  note s1 = silent_lseek[OF l1 assms(2)]
  note s2 = silent_lseek[OF l2 s1]
  note eq = assms(1)[unfolded elide_tail_lines_file_def l1 l2 prod.case]
  show ?thesis
  proof (cases "0 \<le> sp \<and> sp < ep")
    case True
    show ?thesis
    proof (cases "ep = 0")
      case True
      with eq False \<open>0 \<le> sp \<and> sp < ep\<close> s2 show ?thesis by (auto intro: silent_reported)
    next
      case nz: False
      with eq False True have "elide_tail_lines_seekable c n sp ep w2 = (e, w')" by auto
      from elide_tail_lines_seekable_reported[OF this s2] show ?thesis .
    qed
  next
    case np: False
    with eq False have "elide_tail_lines_pipe c n w2 = (e, w')" by auto
    from elide_tail_lines_pipe_reported[OF this s2] show ?thesis .
  qed
qed

text \<open>
  Claim C7, as stated, fails: a write that fails is not always noticed. Eliding the last
  line of a regular file of two lines, the only write (line 680) accepts none of its 2
  bytes and the call returns 0 with no diagnostic; eliding the last 2 bytes of a pipe of 8
  bytes in the double-buffer strategy, the write of the retained bytes (line 297) accepts 1
  byte of 2, the call returns 0 with no diagnostic and the output lacks a byte.
\<close>

theorem unchecked_write_counterexample:
  "elide_tail_lines_file default_config 1
       ((regular_file (''a'' @ [NL] @ ''b'' @ [NL]) 0)\<lparr>write_plan := [0]\<rparr>) =
     (Returned 0,
      (regular_file (''a'' @ [NL] @ ''b'' @ [NL]) 4)
        \<lparr>trace := [Ev_seek 0 1 0, Ev_seek 0 2 4, Ev_seek 0 0 0, Ev_read 4,
                   Ev_write Site_lines_seekable 2 0]\<rparr>)
   \<and> short_write (Ev_write Site_lines_seekable 2 0)
   \<and> elide_tail_bytes_file small_config 2 ((pipe ''abcdefgh'')\<lparr>write_plan := [4, 1]\<rparr>) =
     (Returned 0,
      (pipe ''abcdefgh'')
        \<lparr>src_pos := 8, out := ''abcde'',
          trace := [Ev_alloc 12, Ev_read 6, Ev_write Site_small_prefix 4 4, Ev_read 2,
                    Ev_read 0, Ev_write Site_small_tail 2 1]\<rparr>)
   \<and> short_write (Ev_write Site_small_tail 2 1)"
  by (simp add: env_defs example_defs bytes_simps lines_simps)

text \<open>
  Claim C7, amended: in both modes, through either dispatcher, the trace and the output
  only grow (what was written before an error stays); a short write at one of the tested
  places (lines 199, 302 and 352) is the last event of the call, which then returns 1
  with "error writing" or "write error" as its last diagnostic. The results of the writes
  at the other places (lines 297, 369 to 393, 535, 564, 580 and 680) are not tested.
\<close>

theorem checked_write_failure_reported:
  assumes "elide_tail_bytes_file c n w = (e, w') \<or> elide_tail_lines_file c n w = (e, w')"
  shows "(\<exists>evs. trace w' = trace w @ evs
            \<and> (\<forall>ev\<in>set (butlast evs). \<not> checked_failure ev)
            \<and> ((\<exists>ev\<in>set evs. checked_failure ev) \<longrightarrow>
                  e = Returned 1
                  \<and> (\<exists>ds d. diag w' = diag w @ ds @ [d] \<and> (d = Error_writing \<or> d = Write_error))))
         \<and> (\<exists>bs. out w' = out w @ bs)"
proof -
  from assms have "reported w e w'"
    by (auto intro: elide_tail_bytes_file_reported elide_tail_lines_file_reported silent_refl)
  then show ?thesis unfolding reported_def .
qed

theorem checked_write_failure_reported_witness:
  "elide_tail_bytes_file default_config 1 ((regular_file ''abcdef'' 0)\<lparr>write_plan := [2]\<rparr>) =
     (Returned 1,
      (regular_file ''abcdef'' 5)
        \<lparr>out := ''ab'', diag := [Error_writing],
          trace := [Ev_seek 0 1 0, Ev_seek 0 2 6, Ev_seek 0 0 0, Ev_read 5,
                    Ev_write Site_copy_fd 5 2]\<rparr>)
   \<and> checked_failure (Ev_write Site_copy_fd 5 2)
   \<and> (\<exists>evs. [Ev_seek 0 1 0, Ev_seek 0 2 6, Ev_seek 0 0 0, Ev_read 5, Ev_write Site_copy_fd 5 2] =
              [] @ evs
         \<and> (\<forall>ev\<in>set (butlast evs). \<not> checked_failure ev)
         \<and> ((\<exists>ev\<in>set evs. checked_failure ev) \<longrightarrow>
              (\<exists>ds d. [Error_writing] = [] @ ds @ [d] \<and> (d = Error_writing \<or> d = Write_error))))"
proof -
  let ?w = "(regular_file ''abcdef'' 0)\<lparr>write_plan := [2]\<rparr>"
  let ?w' = "(regular_file ''abcdef'' 5)
        \<lparr>out := ''ab'', diag := [Error_writing],
          trace := [Ev_seek 0 1 0, Ev_seek 0 2 6, Ev_seek 0 0 0, Ev_read 5,
                    Ev_write Site_copy_fd 5 2]\<rparr>"
  have run: "elide_tail_bytes_file default_config 1 ?w = (Returned 1, ?w')"
    by (simp add: env_defs example_defs bytes_simps)
  from checked_write_failure_reported[of default_config 1 ?w "Returned 1" ?w'] run
  show ?thesis by (simp add: example_defs)
qed

end
